theory Spec2Isabelle
  imports
    Main
    "HOL-Library.Word"
    "HOL-Library.Char_ord"
    "HOL-Library.List_Lexorder"
    "HOL-Library.Signed_Division"
begin

unbundle bit_operations_syntax

chapter \<open>The storage layer of the time-series database\<close>

text \<open>
  A shallow embedding of \<^verbatim>\<open>pkg/storage\<close>: the compression codec
  (\<^verbatim>\<open>compression.go\<close>), the series index, the write-ahead log with its batch
  writer, the query cache (\<^verbatim>\<open>cache.go\<close>) and the storage engine
  (\<^verbatim>\<open>storage.go\<close>). Go's \<^verbatim>\<open>int64\<close> and \<^verbatim>\<open>uint64\<close> are 64-bit words
  (arithmetic wraps, \<open>sint\<close> reads the signed value), byte slices are lists of 8-bit
  words, and every error return and every run-time panic is a value of \<open>error\<close>.
\<close>

section \<open>Machine types and errors\<close>

type_synonym byte = "8 word"
type_synonym int64 = "64 word"
type_synonym uint64 = "64 word"

text \<open>
  A \<^verbatim>\<open>float64\<close> is represented by its IEEE-754 bit pattern:
  \<^verbatim>\<open>math.Float64bits\<close> and \<^verbatim>\<open>math.Float64frombits\<close> are the two directions of the
  reinterpretation, so two values are equal here exactly when they are bit-identical
  (\<open>NaN\<close> payloads and the sign of zero included).
\<close>

datatype float64 = Float64frombits (Float64bits: uint64)

datatype error =
    EOF
  | ErrUnexpectedEOF
  | Errorf string
  | Wrapped string error
  | External string
  | Panic string

text \<open>
  \<open>EOF\<close> and \<open>ErrUnexpectedEOF\<close> are \<^verbatim>\<open>io.EOF\<close> and \<^verbatim>\<open>io.ErrUnexpectedEOF\<close>;
  \<open>Errorf m\<close> is \<^verbatim>\<open>fmt.Errorf(m)\<close> and \<open>Wrapped m e\<close> is \<^verbatim>\<open>fmt.Errorf(m + ": %w", e)\<close>;
  \<open>External m\<close> is an error value produced by a collaborator outside the repository
  (the zstd library, the key-value store, the file system); \<open>Panic m\<close> is a run-time
  panic, after which the call does not return.
\<close>

section \<open>Codec: \<^verbatim>\<open>compression.go\<close>\<close>

subsection \<open>\<^verbatim>\<open>encoding/binary\<close>, little endian, on 64-bit values\<close>

definition PutUint64 :: "uint64 \<Rightarrow> byte list" where
  "PutUint64 v =
     [ucast v, ucast (drop_bit 8 v), ucast (drop_bit 16 v), ucast (drop_bit 24 v),
      ucast (drop_bit 32 v), ucast (drop_bit 40 v), ucast (drop_bit 48 v),
      ucast (drop_bit 56 v)]"

definition Uint64 :: "byte list \<Rightarrow> uint64" where
  "Uint64 b =
     ucast (b ! 0) OR push_bit 8 (ucast (b ! 1)) OR push_bit 16 (ucast (b ! 2)) OR
     push_bit 24 (ucast (b ! 3)) OR push_bit 32 (ucast (b ! 4)) OR
     push_bit 40 (ucast (b ! 5)) OR push_bit 48 (ucast (b ! 6)) OR
     push_bit 56 (ucast (b ! 7))"

text \<open>
  \<^verbatim>\<open>binary.Write(buf, binary.LittleEndian, v)\<close> on a \<^verbatim>\<open>bytes.Buffer\<close> appends the eight
  bytes of \<open>v\<close> and cannot fail. \<^verbatim>\<open>binary.Read(buf, binary.LittleEndian, &v)\<close> on a
  \<^verbatim>\<open>bytes.Reader\<close> takes eight bytes through \<^verbatim>\<open>io.ReadFull\<close>: \<^verbatim>\<open>io.EOF\<close> when none is
  left, \<^verbatim>\<open>io.ErrUnexpectedEOF\<close> when fewer than eight are. The reader is the list of the
  bytes not yet consumed. \<open>Uint64\<close> is only applied to eight bytes.
\<close>

definition binary_Write :: "byte list \<Rightarrow> uint64 \<Rightarrow> byte list" where
  "binary_Write buf v = buf @ PutUint64 v"

definition binary_Read :: "byte list \<Rightarrow> error + (uint64 \<times> byte list)" where
  "binary_Read buf =
     (if buf = [] then Inl EOF
      else if length buf < 8 then Inl ErrUnexpectedEOF
      else Inr (Uint64 (take 8 buf), drop 8 buf))"

subsection \<open>The compressor\<close>

text \<open>
  \<^verbatim>\<open>Compressor\<close> holds a zstd encoder and decoder (\<^verbatim>\<open>github.com/klauspost/compress/zstd\<close>,
  not part of the repository). The fields stand for the two calls the codec makes:
  \<open>encoder c src\<close> is \<^verbatim>\<open>c.encoder.EncodeAll(src, make([]byte, 0, n))\<close> and
  \<open>decoder c data\<close> is \<^verbatim>\<open>c.decoder.DecodeAll(data, nil)\<close>.
\<close>

record Compressor =
  encoder :: "byte list \<Rightarrow> byte list"
  decoder :: "byte list \<Rightarrow> error + byte list"

text \<open>
  What the codec relies on from zstd: decoding an encoded buffer gives the buffer back,
  and the frame of a non-empty buffer is not empty.
\<close>

definition zstd_lossless :: "Compressor \<Rightarrow> bool" where
  "zstd_lossless c \<longleftrightarrow>
     (\<forall>src. decoder c (encoder c src) = Inr src) \<and> (\<forall>src. src \<noteq> [] \<longrightarrow> encoder c src \<noteq> [])"

text \<open>
  A compressor for concrete runs: it stores the input behind the four bytes of the zstd
  magic number and refuses any other input.
\<close>

definition stored_frames :: Compressor where
  "stored_frames =
     \<lparr> encoder = (\<lambda>src. [0x28, 0xB5, 0x2F, 0xFD] @ src),
       decoder = (\<lambda>data. if take 4 data = [0x28, 0xB5, 0x2F, 0xFD] then Inr (drop 4 data)
                          else Inl (External ''invalid input: magic number mismatch'')) \<rparr>"

subsection \<open>Allocation of a slice\<close>

text \<open>
  \<^verbatim>\<open>make([]T, n)\<close> is \<^verbatim>\<open>runtime.makeslice\<close>: it panics when \<open>n\<close> is negative or when \<open>n\<close>
  elements of \<open>elemSize\<close> bytes take more than \<^verbatim>\<open>maxAlloc\<close> bytes, the size of the address
  space the heap can use: \<open>2 ^ 48\<close> on linux/amd64 and most other 64-bit platforms.
  \<open>None\<close> stands for a slice that was allocated; that the memory is there for a slice
  within the limit is taken for granted. The numbers printed in the messages of the
  runtime are in decimal.
\<close>

definition maxAlloc :: int where
  "maxAlloc = 2 ^ 48"

definition makeslice :: "int \<Rightarrow> int \<Rightarrow> error option" where
  "makeslice elemSize n =
     (if n < 0 \<or> maxAlloc < elemSize * n
      then Some (Panic ''runtime error: makeslice: len out of range'')
      else None)"

function itoa :: "nat \<Rightarrow> string" where
  "itoa n =
     (if n < 10 then [char_of (48 + n)]
      else itoa (n div 10) @ [char_of (48 + n mod 10)])"
  by pat_completeness auto
termination
  by (relation "measure (\<lambda>n. n)") auto

definition boundsError :: "nat \<Rightarrow> nat \<Rightarrow> error" where
  "boundsError i n =
     Panic (''runtime error: index out of range ['' @ itoa i @ ''] with length '' @ itoa n)"

subsection \<open>Timestamps: delta of delta\<close>

text \<open>The loop of \<^verbatim>\<open>CompressTimestamps\<close> from index 1 on: \<open>prev\<close> is \<^verbatim>\<open>timestamps[i-1]\<close>.\<close>

fun write_deltas :: "byte list \<Rightarrow> int64 \<Rightarrow> int64 \<Rightarrow> int64 list \<Rightarrow> byte list" where
  "write_deltas buf prev prevDelta [] = buf"
| "write_deltas buf prev prevDelta (t # ts) =
     (let delta = t - prev;
          deltaOfDelta = delta - prevDelta
      in write_deltas (binary_Write buf deltaOfDelta) t delta ts)"

definition CompressTimestamps :: "Compressor \<Rightarrow> int64 list \<Rightarrow> error + byte list" where
  "CompressTimestamps c timestamps =
     (case timestamps of
        [] \<Rightarrow> Inr []
      | t0 # ts \<Rightarrow> Inr (encoder c (write_deltas (binary_Write [] t0) t0 0 ts)))"

text \<open>
  The loop of \<^verbatim>\<open>DecompressTimestamps\<close>: \<open>n\<close> iterations are left, \<open>timestamps\<close> are the
  elements filled so far and \<open>prev\<close> is the last of them.
\<close>

fun read_deltas ::
  "nat \<Rightarrow> byte list \<Rightarrow> int64 list \<Rightarrow> int64 \<Rightarrow> int64 \<Rightarrow> error + int64 list" where
  "read_deltas 0 buf timestamps prev prevDelta = Inr timestamps"
| "read_deltas (Suc n) buf timestamps prev prevDelta =
     (case binary_Read buf of
        Inl e \<Rightarrow> Inl e
      | Inr (deltaOfDelta, buf') \<Rightarrow>
          (let delta = deltaOfDelta + prevDelta;
               t = prev + delta
           in read_deltas n buf' (timestamps @ [t]) t delta))"

text \<open>
  \<^verbatim>\<open>count\<close> is a Go \<^verbatim>\<open>int\<close>. \<^verbatim>\<open>make([]int64, count)\<close> panics on a negative count and on
  a count above the allocation limit, and \<^verbatim>\<open>&timestamps[0]\<close> panics on a count of zero;
  both come after the zstd decoder ran and before the first read.
\<close>

definition DecompressTimestamps :: "Compressor \<Rightarrow> byte list \<Rightarrow> int \<Rightarrow> error + int64 list" where
  "DecompressTimestamps c data count =
     (if length data = 0 then Inr []
      else (case decoder c data of
        Inl e \<Rightarrow> Inl (Wrapped ''decompression failed'' e)
      | Inr decompressed \<Rightarrow>
          (case makeslice 8 count of
             Some p \<Rightarrow> Inl p
           | None \<Rightarrow>
               if count = 0 then Inl (boundsError 0 0)
               else (case binary_Read decompressed of
                 Inl e \<Rightarrow> Inl e
               | Inr (t0, buf) \<Rightarrow> read_deltas (nat (count - 1)) buf [t0] t0 0))))"

subsection \<open>Values: XOR with the previous bit pattern\<close>

fun write_xors :: "byte list \<Rightarrow> uint64 \<Rightarrow> float64 list \<Rightarrow> byte list" where
  "write_xors buf prevBits [] = buf"
| "write_xors buf prevBits (v # vs) =
     (let currentBits = Float64bits v;
          xorBits = currentBits XOR prevBits
      in write_xors (binary_Write buf xorBits) currentBits vs)"

definition CompressValues :: "Compressor \<Rightarrow> float64 list \<Rightarrow> error + byte list" where
  "CompressValues c values =
     (case values of
        [] \<Rightarrow> Inr []
      | v0 # vs \<Rightarrow>
          Inr (encoder c (write_xors (binary_Write [] (Float64bits v0)) (Float64bits v0) vs)))"

fun read_xors :: "nat \<Rightarrow> byte list \<Rightarrow> float64 list \<Rightarrow> uint64 \<Rightarrow> error + float64 list" where
  "read_xors 0 buf values prevBits = Inr values"
| "read_xors (Suc n) buf values prevBits =
     (case binary_Read buf of
        Inl e \<Rightarrow> Inl e
      | Inr (xorBits, buf') \<Rightarrow>
          (let currentBits = xorBits XOR prevBits
           in read_xors n buf' (values @ [Float64frombits currentBits]) currentBits))"

text \<open>
  \<^verbatim>\<open>DecompressValues\<close> allocates with \<^verbatim>\<open>make([]float64, count)\<close> in the same place. It
  reads the first bit pattern into a local variable before it stores \<^verbatim>\<open>values[0]\<close>, so
  on a count of zero the read error, if any, comes before the index panic.
\<close>

definition DecompressValues :: "Compressor \<Rightarrow> byte list \<Rightarrow> int \<Rightarrow> error + float64 list" where
  "DecompressValues c data count =
     (if length data = 0 then Inr []
      else (case decoder c data of
        Inl e \<Rightarrow> Inl (Wrapped ''decompression failed'' e)
      | Inr decompressed \<Rightarrow>
          (case makeslice 8 count of
             Some p \<Rightarrow> Inl p
           | None \<Rightarrow>
               (case binary_Read decompressed of
                  Inl e \<Rightarrow> Inl e
                | Inr (firstBits, buf) \<Rightarrow>
                    if count = 0 then Inl (boundsError 0 0)
                    else read_xors (nat (count - 1)) buf [Float64frombits firstBits] firstBits))))"

section \<open>Series index\<close>

text \<open>
  \<^verbatim>\<open>types.Metric\<close>. The Go map \<^verbatim>\<open>Labels\<close> is an association list with distinct keys:
  the order of the list is one of the orders in which \<^verbatim>\<open>range\<close> may visit the map,
  and two lists with the same \<open>map_of\<close> are the same Go map.
\<close>

record Metric =
  Name :: string
  Labels :: "(string \<times> string) list"

record seriesMetadata =
  ID :: uint64
  Metric :: Metric
  MinTime :: int64
  MaxTime :: int64

text \<open>
  \<^verbatim>\<open>Index\<close>. The map \<^verbatim>\<open>series\<close> is iterated and counted, so it is an association
  list with distinct keys, in insertion order; the inverted index \<^verbatim>\<open>labelIndex\<close> is
  only looked up and updated, so it is a map of maps.
\<close>

record Index =
  series :: "(uint64 \<times> seriesMetadata) list"
  labelIndex :: "string \<rightharpoonup> (string \<rightharpoonup> uint64 list)"

definition NewIndex :: Index where
  "NewIndex = \<lparr> series = [], labelIndex = Map.empty \<rparr>"

text \<open>\<^verbatim>\<open>hashBytes\<close>: FNV-1a, 64 bit.\<close>

definition hashBytes :: "byte list \<Rightarrow> uint64" where
  "hashBytes data = foldl (\<lambda>hash b. (hash XOR ucast b) * 1099511628211) 14695981039346656037 data"

text \<open>The bytes of a Go string, as \<^verbatim>\<open>buf.WriteString\<close> appends them.\<close>

definition bytes_of :: "string \<Rightarrow> byte list" where
  "bytes_of s = map of_char s"

text \<open>
  \<^verbatim>\<open>calculateFingerprint\<close>: the keys in the order \<^verbatim>\<open>sort.Strings\<close> gives them
  (bytewise lexicographic), then the name and, for each key, a zero byte, the key, a
  zero byte and the value \<^verbatim>\<open>metric.Labels[k]\<close> (the empty string for a missing key).
\<close>

definition label_value :: "(string \<times> string) list \<Rightarrow> string \<Rightarrow> string" where
  "label_value labels k = (case map_of labels k of None \<Rightarrow> [] | Some v \<Rightarrow> v)"

definition fingerprint_bytes :: "Metric \<Rightarrow> byte list" where
  "fingerprint_bytes metric =
     (let keys = sort (map fst (Labels metric))
      in foldl (\<lambda>buf k. buf @ [0] @ bytes_of k @ [0] @ bytes_of (label_value (Labels metric) k))
           (bytes_of (Name metric)) keys)"

definition calculateFingerprint :: "Metric \<Rightarrow> uint64" where
  "calculateFingerprint metric = hashBytes (fingerprint_bytes metric)"

text \<open>
  One step of the inverted index:
  \<^verbatim>\<open>if idx.labelIndex[name] == nil { idx.labelIndex[name] = make(...) }\<close> and
  \<^verbatim>\<open>idx.labelIndex[name][value] = append(idx.labelIndex[name][value], fingerprint)\<close>.
\<close>

definition index_label :: "Index \<Rightarrow> string \<Rightarrow> string \<Rightarrow> uint64 \<Rightarrow> Index" where
  "index_label idx name v fingerprint =
     (let valueMap = (case labelIndex idx name of None \<Rightarrow> Map.empty | Some m \<Rightarrow> m);
          bucket = (case valueMap v of None \<Rightarrow> [] | Some ids \<Rightarrow> ids)
      in idx\<lparr>labelIndex := (labelIndex idx)(name \<mapsto> valueMap(v \<mapsto> bucket @ [fingerprint]))\<rparr>)"

text \<open>
  \<^verbatim>\<open>AddSeries\<close> returns the series ID and the index after the call; its error result is
  \<^verbatim>\<open>nil\<close> on both paths and is left out.
\<close>

definition AddSeries :: "Index \<Rightarrow> Metric \<Rightarrow> uint64 \<times> Index" where
  "AddSeries idx metric =
     (let fingerprint = calculateFingerprint metric
      in case map_of (series idx) fingerprint of
           Some meta \<Rightarrow> (ID meta, idx)
         | None \<Rightarrow>
             (let meta = \<lparr> ID = fingerprint, Metric = metric, MinTime = 0, MaxTime = 0 \<rparr>;
                  idx1 = idx\<lparr>series := series idx @ [(fingerprint, meta)]\<rparr>;
                  idx2 = index_label idx1 ''__name__'' (Name metric) fingerprint;
                  idx3 = foldl (\<lambda>i (name, v). index_label i name v fingerprint) idx2 (Labels metric)
              in (fingerprint, idx3)))"

definition GetSeries :: "Index \<Rightarrow> uint64 \<Rightarrow> seriesMetadata option" where
  "GetSeries idx i = map_of (series idx) i"

definition SeriesCount :: "Index \<Rightarrow> int" where
  "SeriesCount idx = int (length (series idx))"

text \<open>
  \<^verbatim>\<open>intersect\<close> sorts both slices in place with \<^verbatim>\<open>sort.Slice\<close> and then merges them,
  keeping the elements found in both.
\<close>

fun merge_common :: "uint64 list \<Rightarrow> uint64 list \<Rightarrow> uint64 list" where
  "merge_common [] b = []"
| "merge_common (x # a) [] = []"
| "merge_common (x # a) (y # b) =
     (if x < y then merge_common a (y # b)
      else if y < x then merge_common (x # a) b
      else x # merge_common a b)"

definition intersect :: "uint64 list \<Rightarrow> uint64 list \<Rightarrow> uint64 list" where
  "intersect a b = merge_common (sort a) (sort b)"

text \<open>
  The bucket of a selector, and the effect \<^verbatim>\<open>intersect\<close> has on the index: its second
  argument is the bucket itself, not a copy, so the bucket is left sorted.
\<close>

definition bucket :: "Index \<Rightarrow> string \<Rightarrow> string \<Rightarrow> uint64 list option" where
  "bucket idx labelName labelValue =
     (case labelIndex idx labelName of None \<Rightarrow> None | Some valueMap \<Rightarrow> valueMap labelValue)"

definition sort_bucket :: "Index \<Rightarrow> string \<Rightarrow> string \<Rightarrow> Index" where
  "sort_bucket idx labelName labelValue =
     (case labelIndex idx labelName of
        None \<Rightarrow> idx
      | Some valueMap \<Rightarrow>
          (case valueMap labelValue of
             None \<Rightarrow> idx
           | Some seriesIDs \<Rightarrow>
               idx\<lparr>labelIndex := (labelIndex idx)(labelName \<mapsto> valueMap(labelValue \<mapsto> sort seriesIDs))\<rparr>))"

text \<open>
  The loop of \<^verbatim>\<open>FindSeries\<close> over the selectors, in the order \<^verbatim>\<open>range\<close> visits them.
  A \<^verbatim>\<open>nil\<close> slice and an empty slice are both \<open>[]\<close>.
\<close>

fun find_loop ::
  "Index \<Rightarrow> (string \<times> string) list \<Rightarrow> uint64 list \<Rightarrow> bool \<Rightarrow> uint64 list \<times> Index" where
  "find_loop idx [] result first = (result, idx)"
| "find_loop idx ((labelName, labelValue) # sels) result first =
     (case labelIndex idx labelName of
        None \<Rightarrow> ([], idx)
      | Some valueMap \<Rightarrow>
          (case valueMap labelValue of
             None \<Rightarrow> ([], idx)
           | Some seriesIDs \<Rightarrow>
               (if first then
                  (if length seriesIDs = 0 then ([], idx)
                   else find_loop idx sels seriesIDs False)
                else
                  (if length (intersect result seriesIDs) = 0
                   then ([], sort_bucket idx labelName labelValue)
                   else find_loop (sort_bucket idx labelName labelValue) sels
                          (intersect result seriesIDs) False))))"

text \<open>
  \<^verbatim>\<open>FindSeries\<close>: the selectors are a Go map, given here as the list of its entries in
  the order the loop visits them. The result comes with the index after the call.
\<close>

definition FindSeries :: "Index \<Rightarrow> (string \<times> string) list \<Rightarrow> uint64 list \<times> Index" where
  "FindSeries idx labelSelectors =
     (if length labelSelectors = 0 then (map fst (series idx), idx)
      else find_loop idx labelSelectors [] True)"

text \<open>The set of series IDs a selector stands for: empty when the index has no bucket.\<close>

definition ids_of :: "Index \<Rightarrow> string \<Rightarrow> string \<Rightarrow> uint64 set" where
  "ids_of idx labelName labelValue =
     (case bucket idx labelName labelValue of None \<Rightarrow> {} | Some seriesIDs \<Rightarrow> set seriesIDs)"

text \<open>
  The series of \<^verbatim>\<open>TestIndexFindSeries\<close> and the index holding them.
\<close>

definition series_A :: Metric where
  "series_A = \<lparr> Name = ''http_requests_total'',
                 Labels = [(''method'', ''GET''), (''status'', ''200'')] \<rparr>"

definition series_B :: Metric where
  "series_B = \<lparr> Name = ''http_requests_total'',
                 Labels = [(''method'', ''POST''), (''status'', ''200'')] \<rparr>"

definition series_C :: Metric where
  "series_C = \<lparr> Name = ''http_requests_total'',
                 Labels = [(''method'', ''GET''), (''status'', ''404'')] \<rparr>"

definition index_A :: Index where
  "index_A = snd (AddSeries NewIndex series_A)"

definition index_AB :: Index where
  "index_AB = snd (AddSeries index_A series_B)"

definition index_ABC :: Index where
  "index_ABC = snd (AddSeries index_AB series_C)"

text \<open>
  The metrics of \<^verbatim>\<open>TestCalculateFingerprint\<close>: the same labels in two orders, and one
  label value changed; and the first metric under another name.
\<close>

definition test_metric1 :: Metric where
  "test_metric1 = \<lparr> Name = ''test_metric'', Labels = [(''a'', ''1''), (''b'', ''2'')] \<rparr>"

definition test_metric2 :: Metric where
  "test_metric2 = \<lparr> Name = ''test_metric'', Labels = [(''b'', ''2''), (''a'', ''1'')] \<rparr>"

definition test_metric3 :: Metric where
  "test_metric3 = \<lparr> Name = ''test_metric'', Labels = [(''a'', ''1''), (''b'', ''3'')] \<rparr>"

definition test_metric_renamed :: Metric where
  "test_metric_renamed = \<lparr> Name = ''cpu_usage'', Labels = [(''a'', ''1''), (''b'', ''2'')] \<rparr>"

section \<open>Requests and results: \<^verbatim>\<open>pkg/types\<close>\<close>

text \<open>
  A \<^verbatim>\<open>time.Time\<close> is the wall-clock instant it denotes: whole seconds, kept here the way
  \<^verbatim>\<open>Unix()\<close> returns them (an \<^verbatim>\<open>int64\<close> counting from the Unix epoch), and the
  nanoseconds within that second, from 0 to 999999999. The location is left out. So is
  the monotonic clock reading a time may carry: \<^verbatim>\<open>Truncate\<close> strips it, \<^verbatim>\<open>Unix\<close> does
  not read it, and \<^verbatim>\<open>After\<close> and \<^verbatim>\<open>Before\<close> read it only when both times carry one,
  which a time made by \<^verbatim>\<open>time.Unix\<close> does not.
\<close>

record Time =
  unix_sec :: int64
  nanosecond :: nat

record Sample =
  Timestamp :: Time
  Value :: float64

record Series =
  Metric :: Metric
  Samples :: "Sample list"

record WriteRequest =
  TenantID :: string
  Series :: "Series list"

record QueryRequest =
  TenantID :: string
  Query :: string
  StartTime :: Time
  EndTime :: Time

record QueryResult =
  Series :: "Series list"
  Error :: "error option"

section \<open>Query cache: \<^verbatim>\<open>cache.go\<close>\<close>

text \<open>
  The cache keeps a map from keys to entries and a \<^verbatim>\<open>container/list\<close> of the same
  entries, most recently used first. Both hold pointers to the same entries and each
  entry knows its list element, so the list is modelled by the keys of its entries,
  front first. The readings of \<^verbatim>\<open>time.Now()\<close> and the TTL are integers (nanoseconds).
\<close>

record cacheEntry =
  key :: string
  result :: QueryResult
  timestamp :: int

record QueryCache =
  capacity :: int
  ttl :: int
  cache :: "string \<rightharpoonup> cacheEntry"
  lru :: "string list"

definition NewQueryCache :: "int \<Rightarrow> int \<Rightarrow> QueryCache" where
  "NewQueryCache cap t = \<lparr> capacity = cap, ttl = t, cache = Map.empty, lru = [] \<rparr>"

text \<open>
  \<^verbatim>\<open>QueryCache_generateKey\<close> hashes the JSON encoding of tenant, query and the two times in whole
  seconds with SHA-256 and prints the digest in hexadecimal. The parameter \<open>digest\<close>
  stands for \<^verbatim>\<open>json.Marshal\<close> followed by \<^verbatim>\<open>sha256.Sum256\<close> and \<^verbatim>\<open>fmt.Sprintf("%x")\<close>.
\<close>

definition QueryCache_generateKey ::
  "(string \<times> string \<times> int64 \<times> int64 \<Rightarrow> string) \<Rightarrow> QueryRequest \<Rightarrow> string" where
  "QueryCache_generateKey digest req =
     digest (QueryRequest.TenantID req, Query req, unix_sec (StartTime req), unix_sec (EndTime req))"

text \<open>\<^verbatim>\<open>list.MoveToFront\<close> and \<^verbatim>\<open>list.Remove\<close> on the element of key \<open>k\<close>.\<close>

definition MoveToFront :: "string list \<Rightarrow> string \<Rightarrow> string list" where
  "MoveToFront l k = (if k \<in> set l then k # remove1 k l else l)"

definition removeLocked :: "QueryCache \<Rightarrow> string \<Rightarrow> QueryCache" where
  "removeLocked qc k =
     (case cache qc k of
        None \<Rightarrow> qc
      | Some entry \<Rightarrow> qc\<lparr>lru := remove1 k (lru qc), cache := (cache qc)(k := None)\<rparr>)"

text \<open>\<^verbatim>\<open>Get\<close> returns the result, if found and not expired, and the cache after the call.\<close>

definition Get ::
  "(string \<times> string \<times> int64 \<times> int64 \<Rightarrow> string) \<Rightarrow> int \<Rightarrow> QueryCache \<Rightarrow> QueryRequest
     \<Rightarrow> QueryResult option \<times> QueryCache" where
  "Get digest now qc req =
     (let k = QueryCache_generateKey digest req
      in case cache qc k of
           None \<Rightarrow> (None, qc)
         | Some entry \<Rightarrow>
             if now - timestamp entry > ttl qc then (None, removeLocked qc k)
             else (Some (result entry), qc\<lparr>lru := MoveToFront (lru qc) k\<rparr>))"

definition Put ::
  "(string \<times> string \<times> int64 \<times> int64 \<Rightarrow> string) \<Rightarrow> int \<Rightarrow> QueryCache \<Rightarrow> QueryRequest
     \<Rightarrow> QueryResult \<Rightarrow> QueryCache" where
  "Put digest now qc req res =
     (let k = QueryCache_generateKey digest req
      in case cache qc k of
           Some entry \<Rightarrow>
             qc\<lparr>cache := (cache qc)(k \<mapsto> entry\<lparr>result := res, timestamp := now\<rparr>),
                lru := MoveToFront (lru qc) k\<rparr>
         | None \<Rightarrow>
             (let entry = \<lparr> key = k, result = res, timestamp = now \<rparr>;
                  qc1 = qc\<lparr>lru := k # lru qc, cache := (cache qc)(k \<mapsto> entry)\<rparr>
              in if int (length (lru qc1)) > capacity qc1
                 then (case lru qc1 of
                         [] \<Rightarrow> qc1
                       | _ \<Rightarrow> removeLocked qc1 (last (lru qc1)))
                 else qc1))"

definition Size :: "QueryCache \<Rightarrow> int" where
  "Size qc = int (card (dom (cache qc)))"

text \<open>
  What the operations keep true of a cache: the list holds exactly the keys of the map,
  each once, and every entry is stored under its own key.
\<close>

definition cache_ok :: "QueryCache \<Rightarrow> bool" where
  "cache_ok qc \<longleftrightarrow>
     distinct (lru qc) \<and> set (lru qc) = dom (cache qc)
     \<and> (\<forall>k entry. cache qc k = Some entry \<longrightarrow> key entry = k)"


text \<open>
  The scenario of \<^verbatim>\<open>TestQueryCacheLRUEviction\<close>: a cache of capacity 3 and TTL one
  minute, filled with the queries \<open>metric_0\<close>, \<open>metric_1\<close> and \<open>metric_2\<close> at the times
  1, 2 and 3. For concrete runs the digest is replaced by the tenant and the query text
  themselves.
\<close>

definition plain_digest :: "string \<times> string \<times> int64 \<times> int64 \<Rightarrow> string" where
  "plain_digest = (\<lambda>(tenant, query, start, stop). tenant @ ''/'' @ query)"

definition test_request :: "string \<Rightarrow> QueryRequest" where
  "test_request q =
     \<lparr> TenantID = ''test'', Query = q,
       StartTime = \<lparr> unix_sec = 1699996400, nanosecond = 0 \<rparr>,
       EndTime = \<lparr> unix_sec = 1700000000, nanosecond = 0 \<rparr> \<rparr>"

definition empty_result :: QueryResult where
  "empty_result = \<lparr> Series = [], Error = None \<rparr>"

definition full_cache :: QueryCache where
  "full_cache =
     Put plain_digest 3
       (Put plain_digest 2
         (Put plain_digest 1 (NewQueryCache 3 60000000000) (test_request ''metric_0'') empty_result)
         (test_request ''metric_1'') empty_result)
       (test_request ''metric_2'') empty_result"

section \<open>Write-ahead log and batch writer\<close>

text \<open>
  \<^verbatim>\<open>WAL\<close> writes through a \<^verbatim>\<open>bufio.Writer\<close> on a file. The state of that writer (and of
  the file behind it) is a value of the type \<open>'w\<close>; what \<^verbatim>\<open>json.Marshal\<close>,
  \<^verbatim>\<open>writer.Write\<close> and \<^verbatim>\<open>writer.WriteByte\<close> do is given by the three functions of
  \<open>wal_io\<close>. A write returns the error, if any, and the writer after the call.
\<close>

record WALEntry =
  Timestamp :: Time
  TenantID :: string
  Series :: "Series list"

record 'w wal_io =
  json_Marshal :: "WALEntry \<Rightarrow> error + byte list"
  writer_Write :: "'w \<Rightarrow> byte list \<Rightarrow> error option \<times> 'w"
  writer_WriteByte :: "'w \<Rightarrow> byte \<Rightarrow> error option \<times> 'w"

record 'w WAL =
  path :: string
  writer :: 'w

text \<open>\<^verbatim>\<open>WAL.Append\<close>; \<open>now\<close> is the reading of \<^verbatim>\<open>time.Now()\<close>.\<close>

definition WAL_Append ::
  "'w wal_io \<Rightarrow> Time \<Rightarrow> 'w WAL \<Rightarrow> WriteRequest \<Rightarrow> error option \<times> 'w WAL" where
  "WAL_Append io now w req =
     (let entry = \<lparr> Timestamp = now, TenantID = WriteRequest.TenantID req,
                     Series = WriteRequest.Series req \<rparr>
      in case json_Marshal io entry of
           Inl err \<Rightarrow> (Some (Wrapped ''failed to marshal WAL entry'' err), w)
         | Inr data \<Rightarrow>
             (case writer_Write io (writer w) data of
                (Some err, wr) \<Rightarrow> (Some (Wrapped ''failed to write to WAL'' err), w\<lparr>writer := wr\<rparr>)
              | (None, wr) \<Rightarrow>
                  (case writer_WriteByte io wr 10 of
                     (Some err, wr') \<Rightarrow>
                       (Some (Wrapped ''failed to write newline'' err), w\<lparr>writer := wr'\<rparr>)
                   | (None, wr') \<Rightarrow> (None, w\<lparr>writer := wr'\<rparr>))))"

text \<open>
  \<^verbatim>\<open>BatchWriter\<close>. The field \<open>wal\<close> is \<open>None\<close> for a \<^verbatim>\<open>nil\<close> pointer (WAL disabled).
  The storage is a value of the type \<open>'s\<close>: the method \<^verbatim>\<open>writeDirect\<close> that
  \<^verbatim>\<open>flushLocked\<close> calls on it is not among the sources and is a parameter.
\<close>

record ('w, 's) BatchWriter =
  storage :: 's
  wal :: "'w WAL option"
  buffer :: "WriteRequest list"
  bufferSize :: int

text \<open>
  The batches of \<^verbatim>\<open>flushLocked\<close>, one per tenant: the Go map \<^verbatim>\<open>tenantBatches\<close> as an
  association list, tenants in the order of their first request.
\<close>

fun add_batch ::
  "(string \<times> Series list) list \<Rightarrow> string \<Rightarrow> Series list \<Rightarrow> (string \<times> Series list) list" where
  "add_batch [] tenantID ss = [(tenantID, ss)]"
| "add_batch ((t, batch) # rest) tenantID ss =
     (if t = tenantID then (t, batch @ ss) # rest else (t, batch) # add_batch rest tenantID ss)"

definition tenantBatches :: "WriteRequest list \<Rightarrow> (string \<times> Series list) list" where
  "tenantBatches reqs =
     foldl (\<lambda>batches req. add_batch batches (WriteRequest.TenantID req) (WriteRequest.Series req))
       [] reqs"

fun write_batches ::
  "('s \<Rightarrow> WriteRequest \<Rightarrow> error option \<times> 's) \<Rightarrow> 's \<Rightarrow> (string \<times> Series list) list
     \<Rightarrow> error option \<times> 's" where
  "write_batches writeDirect st [] = (None, st)"
| "write_batches writeDirect st ((tenantID, ss) # rest) =
     (case writeDirect st \<lparr> WriteRequest.TenantID = tenantID, WriteRequest.Series = ss \<rparr> of
        (Some err, st') \<Rightarrow> (Some (Wrapped ''batch write failed'' err), st')
      | (None, st') \<Rightarrow> write_batches writeDirect st' rest)"

definition flushLocked ::
  "('s \<Rightarrow> WriteRequest \<Rightarrow> error option \<times> 's) \<Rightarrow> ('w, 's) BatchWriter
     \<Rightarrow> error option \<times> ('w, 's) BatchWriter" where
  "flushLocked writeDirect bw =
     (if length (buffer bw) = 0 then (None, bw)
      else case write_batches writeDirect (storage bw) (tenantBatches (buffer bw)) of
             (Some err, st) \<Rightarrow> (Some err, bw\<lparr>storage := st\<rparr>)
           | (None, st) \<Rightarrow> (None, bw\<lparr>storage := st, buffer := []\<rparr>))"

text \<open>The part of \<^verbatim>\<open>BatchWriter.Write\<close> after the WAL: buffer the request, flush when full.\<close>

definition buffer_request ::
  "('s \<Rightarrow> WriteRequest \<Rightarrow> error option \<times> 's) \<Rightarrow> ('w, 's) BatchWriter \<Rightarrow> WriteRequest
     \<Rightarrow> error option \<times> ('w, 's) BatchWriter" where
  "buffer_request writeDirect bw req =
     (let bw' = bw\<lparr>buffer := buffer bw @ [req]\<rparr>
      in if int (length (buffer bw')) \<ge> bufferSize bw' then flushLocked writeDirect bw'
         else (None, bw'))"

definition BatchWriter_Write ::
  "'w wal_io \<Rightarrow> ('s \<Rightarrow> WriteRequest \<Rightarrow> error option \<times> 's) \<Rightarrow> Time \<Rightarrow> ('w, 's) BatchWriter
     \<Rightarrow> WriteRequest \<Rightarrow> error option \<times> ('w, 's) BatchWriter" where
  "BatchWriter_Write io writeDirect now bw req =
     (case wal bw of
        None \<Rightarrow> buffer_request writeDirect bw req
      | Some w \<Rightarrow>
          (case WAL_Append io now w req of
             (Some err, w') \<Rightarrow> (Some (Wrapped ''WAL append failed'' err), bw\<lparr>wal := Some w'\<rparr>)
           | (None, w') \<Rightarrow> buffer_request writeDirect (bw\<lparr>wal := Some w'\<rparr>) req))"

text \<open>
  For concrete runs: a writer that accepts bytes while it has room for them and fails
  with a full device otherwise, an encoder that writes the tenant name, and a storage
  that collects the requests written to it.
\<close>

definition bounded_io :: "(byte list \<times> nat) wal_io" where
  "bounded_io =
     \<lparr> json_Marshal = (\<lambda>entry. Inr (bytes_of (WALEntry.TenantID entry))),
       writer_Write = (\<lambda>(written, room) data.
          if length data \<le> room then (None, (written @ data, room - length data))
          else (Some (External ''no space left on device''), (written, room))),
       writer_WriteByte = (\<lambda>(written, room) b.
          if 1 \<le> room then (None, (written @ [b], room - 1))
          else (Some (External ''no space left on device''), (written, room))) \<rparr>"

definition collect :: "WriteRequest list \<Rightarrow> WriteRequest \<Rightarrow> error option \<times> WriteRequest list" where
  "collect st req = (None, st @ [req])"

definition test_write :: WriteRequest where
  "test_write =
     \<lparr> WriteRequest.TenantID = ''test'',
       WriteRequest.Series =
         [\<lparr> Series.Metric = \<lparr> Name = ''test_metric'', Labels = [(''label'', ''value'')] \<rparr>,
            Samples = [\<lparr> Sample.Timestamp = \<lparr> unix_sec = 1700000000, nanosecond = 500000000 \<rparr>,
                        Value = Float64frombits 0x4045000000000000 \<rparr>] \<rparr>] \<rparr>"

section \<open>Storage engine: \<^verbatim>\<open>storage.go\<close>\<close>

subsection \<open>Times\<close>

text \<open>
  The operations of \<^verbatim>\<open>time.Time\<close> the engine uses, as package \<^verbatim>\<open>time\<close> has them. Inside
  a \<^verbatim>\<open>Time\<close> the seconds count from 1 January of the year 1: \<^verbatim>\<open>t.sec()\<close> is the Unix
  second plus \<^verbatim>\<open>unixToInternal\<close>, an \<^verbatim>\<open>int64\<close> addition that wraps, and \<^verbatim>\<open>time.Unix\<close> and
  \<^verbatim>\<open>Unix()\<close> convert back and forth.
\<close>

definition unixToInternal :: int64 where
  "unixToInternal = 62135596800"

definition sec :: "Time \<Rightarrow> int64" where
  "sec t = unix_sec t + unixToInternal"

definition Unix :: "Time \<Rightarrow> int64" where
  "Unix t = unix_sec t"

definition time_Unix :: "int64 \<Rightarrow> nat \<Rightarrow> Time" where
  "time_Unix s ns = \<lparr> unix_sec = s, nanosecond = ns \<rparr>"

text \<open>
  \<^verbatim>\<open>addSec\<close> adds seconds to the internal seconds and saturates instead of wrapping.
\<close>

definition addSec :: "int64 \<Rightarrow> int64 \<Rightarrow> int64" where
  "addSec ext d =
     (let sum = ext + d
      in if (ext <s sum) = (0 <s d) then sum
         else if 0 <s d then 0x7FFFFFFFFFFFFFFF
         else - 0x7FFFFFFFFFFFFFFF)"

text \<open>
  \<^verbatim>\<open>t.Add(d)\<close> for a duration \<open>d\<close> in nanoseconds. The duration is an \<^verbatim>\<open>int64\<close>; the only
  one passed here lies within an hour of zero, so it is an \<open>int\<close>. Go's \<^verbatim>\<open>/\<close> and \<^verbatim>\<open>%\<close>
  round towards zero, as \<open>sdiv\<close> and \<open>smod\<close> do.
\<close>

definition Add :: "Time \<Rightarrow> int \<Rightarrow> Time" where
  "Add t d =
     (let dsec = d sdiv 1000000000;
          nsec = int (nanosecond t) + d smod 1000000000;
          (dsec, nsec) =
            (if 1000000000 \<le> nsec then (dsec + 1, nsec - 1000000000)
             else if nsec < 0 then (dsec - 1, nsec + 1000000000)
             else (dsec, nsec))
      in \<lparr> unix_sec = addSec (sec t) (word_of_int dsec) - unixToInternal,
           nanosecond = nat nsec \<rparr>)"

text \<open>
  The remainder that \<^verbatim>\<open>div(t, time.Hour)\<close> returns, the case of a duration that is a
  multiple of a second: it works on the absolute value of the internal seconds (the
  negation and the decrement are \<^verbatim>\<open>int64\<close> operations) and turns the remainder round
  for a negative time. \<^verbatim>\<open>Truncate(time.Hour)\<close> subtracts the remainder.
\<close>

definition div_Hour :: "Time \<Rightarrow> int" where
  "div_Hour t =
     (let neg = sec t <s 0;
          (s, nsec) =
            (if neg then
               (if 0 < nanosecond t
                then (- sec t - 1, 1000000000 - int (nanosecond t))
                else (- sec t, 0))
             else (sec t, int (nanosecond t)));
          r = (sint s smod 3600) * 1000000000 + nsec
      in if neg \<and> r \<noteq> 0 then 3600000000000 - r else r)"

definition Truncate_Hour :: "Time \<Rightarrow> Time" where
  "Truncate_Hour t = Add t (- div_Hour t)"

text \<open>
  \<^verbatim>\<open>After\<close> and \<^verbatim>\<open>Before\<close> compare the internal seconds as signed numbers, then the
  nanoseconds.
\<close>

definition After :: "Time \<Rightarrow> Time \<Rightarrow> bool" where
  "After t u \<longleftrightarrow> sec u <s sec t \<or> (sec t = sec u \<and> nanosecond u < nanosecond t)"

definition Before :: "Time \<Rightarrow> Time \<Rightarrow> bool" where
  "Before t u \<longleftrightarrow> sec t <s sec u \<or> (sec t = sec u \<and> nanosecond t < nanosecond u)"

subsection \<open>The key-value store\<close>

text \<open>
  The value stored for one block. BadgerDB is outside the repository: the state of the
  database is a value of the type \<open>'db\<close>, and the two ways the engine uses it are the
  functions of \<open>kvstore\<close>. \<open>txn_Set\<close> stands for \<^verbatim>\<open>json.Marshal(payload)\<close> followed by
  \<^verbatim>\<open>db.Update\<close> with \<^verbatim>\<open>txn.Set(key, payloadBytes)\<close>: it gives the database after the
  transaction, or the error. \<open>txn_Get\<close> stands for \<^verbatim>\<open>db.View\<close> with \<^verbatim>\<open>txn.Get(key)\<close>
  followed by \<^verbatim>\<open>json.Unmarshal\<close>: a missing key and an unreadable value are errors.
\<close>

record blockPayload =
  Count :: int
  CompressedTS :: "byte list"
  CompressedValues :: "byte list"

record 'db kvstore =
  txn_Set :: "'db \<Rightarrow> byte list \<Rightarrow> blockPayload \<Rightarrow> error + 'db"
  txn_Get :: "'db \<Rightarrow> byte list \<Rightarrow> error + blockPayload"

record 'db badgerStorage =
  db :: 'db
  index :: Index
  compressor :: Compressor

text \<open>
  \<^verbatim>\<open>generateKey\<close>: the tenant, a slash, the series ID and a slash, the block time, both
  numbers as eight bytes in big-endian order.
\<close>

definition generateKey :: "string \<Rightarrow> uint64 \<Rightarrow> int64 \<Rightarrow> byte list" where
  "generateKey tenantID seriesID blockTime =
     bytes_of tenantID @ [0x2F] @ rev (PutUint64 seriesID) @ [0x2F] @ rev (PutUint64 blockTime)"

text \<open>
  A panic is not an error value: \<^verbatim>\<open>fmt.Errorf\<close> wraps error values only, and a panic
  passes through every caller.
\<close>

fun is_panic :: "error \<Rightarrow> bool" where
  "is_panic (Panic m) = True"
| "is_panic _ = False"

definition wrap :: "string \<Rightarrow> error \<Rightarrow> error" where
  "wrap m err = (if is_panic err then err else Wrapped m err)"

subsection \<open>The write path\<close>

text \<open>
  \<^verbatim>\<open>groupSamplesByBlock\<close>: the Go map from block time to samples as an association list,
  blocks in the order of their first sample.
\<close>

fun append_block ::
  "(int64 \<times> Sample list) list \<Rightarrow> int64 \<Rightarrow> Sample \<Rightarrow> (int64 \<times> Sample list) list" where
  "append_block [] blockTime sample = [(blockTime, [sample])]"
| "append_block ((b, ss) # blocks) blockTime sample =
     (if b = blockTime then (b, ss @ [sample]) # blocks
      else (b, ss) # append_block blocks blockTime sample)"

definition groupSamplesByBlock :: "Sample list \<Rightarrow> (int64 \<times> Sample list) list" where
  "groupSamplesByBlock samples =
     foldl (\<lambda>blocks sample.
              append_block blocks (Unix (Truncate_Hour (Sample.Timestamp sample))) sample)
       [] samples"

definition writeBlock ::
  "'db kvstore \<Rightarrow> 'db badgerStorage \<Rightarrow> string \<Rightarrow> uint64 \<Rightarrow> int64 \<Rightarrow> Sample list
     \<Rightarrow> error option \<times> 'db badgerStorage" where
  "writeBlock kv s tenantID seriesID blockTime samples =
     (let timestamps = map (\<lambda>sample. Unix (Sample.Timestamp sample)) samples;
          values = map Value samples
      in case CompressTimestamps (compressor s) timestamps of
           Inl err \<Rightarrow> (Some (wrap ''failed to compress timestamps'' err), s)
         | Inr compressedTS \<Rightarrow>
             (case CompressValues (compressor s) values of
                Inl err \<Rightarrow> (Some (wrap ''failed to compress values'' err), s)
              | Inr compressedVals \<Rightarrow>
                  (let payload = \<lparr> Count = int (length samples), CompressedTS = compressedTS,
                                    CompressedValues = compressedVals \<rparr>;
                       k = generateKey tenantID seriesID blockTime
                   in case txn_Set kv (db s) k payload of
                        Inl err \<Rightarrow> (Some err, s)
                      | Inr db' \<Rightarrow> (None, s\<lparr>db := db'\<rparr>))))"

fun write_blocks ::
  "'db kvstore \<Rightarrow> 'db badgerStorage \<Rightarrow> string \<Rightarrow> uint64 \<Rightarrow> (int64 \<times> Sample list) list
     \<Rightarrow> error option \<times> 'db badgerStorage" where
  "write_blocks kv s tenantID seriesID [] = (None, s)"
| "write_blocks kv s tenantID seriesID ((blockTime, samples) # blocks) =
     (case writeBlock kv s tenantID seriesID blockTime samples of
        (Some err, s') \<Rightarrow> (Some (wrap ''failed to write block'' err), s')
      | (None, s') \<Rightarrow> write_blocks kv s' tenantID seriesID blocks)"

text \<open>
  The loop of \<^verbatim>\<open>Write\<close> over the series of the request. \<^verbatim>\<open>AddSeries\<close> never returns an
  error, so the branch for it is not there.
\<close>

fun write_series ::
  "'db kvstore \<Rightarrow> 'db badgerStorage \<Rightarrow> string \<Rightarrow> Series list
     \<Rightarrow> error option \<times> 'db badgerStorage" where
  "write_series kv s tenantID [] = (None, s)"
| "write_series kv s tenantID (ser # rest) =
     (let (seriesID, idx) = AddSeries (index s) (Series.Metric ser);
          blocks = groupSamplesByBlock (Samples ser)
      in case write_blocks kv (s\<lparr>index := idx\<rparr>) tenantID seriesID blocks of
           (Some err, s') \<Rightarrow> (Some err, s')
         | (None, s') \<Rightarrow> write_series kv s' tenantID rest)"

definition badgerStorage_Write ::
  "'db kvstore \<Rightarrow> 'db badgerStorage \<Rightarrow> WriteRequest \<Rightarrow> error option \<times> 'db badgerStorage" where
  "badgerStorage_Write kv s req =
     write_series kv s (WriteRequest.TenantID req) (WriteRequest.Series req)"

subsection \<open>The read path\<close>

text \<open>
  The last loop of \<^verbatim>\<open>readBlock\<close>. \<^verbatim>\<open>make([]types.Sample, payload.Count)\<close> panics on a
  negative count and on a count above the allocation limit; a \<^verbatim>\<open>Sample\<close> takes 32
  bytes, 24 for the time and 8 for the value. The indexing panics at the first index
  that one of the decompressed slices does not have (an empty compressed field
  decompresses to \<^verbatim>\<open>nil\<close>).
\<close>

definition build_samples :: "int \<Rightarrow> int64 list \<Rightarrow> float64 list \<Rightarrow> error + Sample list" where
  "build_samples cnt timestamps values =
     (case makeslice 32 cnt of
        Some p \<Rightarrow> Inl p
      | None \<Rightarrow>
          (let n = min (length timestamps) (length values)
           in if n < nat cnt then Inl (boundsError n n)
              else Inr (map (\<lambda>i. \<lparr> Sample.Timestamp = time_Unix (timestamps ! i) 0,
                                    Value = values ! i \<rparr>)
                          [0..<nat cnt])))"

definition readBlock ::
  "'db kvstore \<Rightarrow> 'db badgerStorage \<Rightarrow> string \<Rightarrow> uint64 \<Rightarrow> int64 \<Rightarrow> error + Sample list" where
  "readBlock kv s tenantID seriesID blockTime =
     (case txn_Get kv (db s) (generateKey tenantID seriesID blockTime) of
        Inl err \<Rightarrow> Inl err
      | Inr payload \<Rightarrow>
          (case DecompressTimestamps (compressor s) (CompressedTS payload) (Count payload) of
             Inl err \<Rightarrow> Inl (wrap ''failed to decompress timestamps'' err)
           | Inr timestamps \<Rightarrow>
               (case DecompressValues (compressor s) (CompressedValues payload) (Count payload) of
                  Inl err \<Rightarrow> Inl (wrap ''failed to decompress values'' err)
                | Inr values \<Rightarrow> build_samples (Count payload) timestamps values)))"

definition parseLabelSelectors :: "string \<Rightarrow> (string \<times> string) list" where
  "parseLabelSelectors query = (if query = [] then [] else [(''__name__'', query)])"

text \<open>The filter of \<^verbatim>\<open>Query\<close> on a sample.\<close>

definition in_window :: "QueryRequest \<Rightarrow> Sample \<Rightarrow> bool" where
  "in_window req sample \<longleftrightarrow>
     After (Sample.Timestamp sample) (StartTime req) \<and> Before (Sample.Timestamp sample) (EndTime req)"

text \<open>
  The loop of \<^verbatim>\<open>Query\<close> over the blocks of one series:
  \<^verbatim>\<open>for blockTime := startBlock; blockTime <= endBlock; blockTime += 3600\<close>. The counter is
  an \<^verbatim>\<open>int64\<close> and the addition wraps, so the loop need not end: the result is \<open>None\<close>
  when it does not. A block that cannot be read is skipped; a panic ends the call.
\<close>

partial_function (option) read_blocks ::
  "'db kvstore \<Rightarrow> 'db badgerStorage \<Rightarrow> QueryRequest \<Rightarrow> uint64 \<Rightarrow> int64 \<Rightarrow> int64 \<Rightarrow> Sample list
     \<Rightarrow> (error + Sample list) option" where
  "read_blocks kv s req seriesID blockTime endBlock samples =
     (if blockTime \<le>s endBlock then
        (case readBlock kv s (QueryRequest.TenantID req) seriesID blockTime of
           Inl err \<Rightarrow>
             if is_panic err then Some (Inl err)
             else read_blocks kv s req seriesID (blockTime + 3600) endBlock samples
         | Inr block \<Rightarrow>
             read_blocks kv s req seriesID (blockTime + 3600) endBlock
               (samples @ filter (in_window req) block))
      else Some (Inr samples))"

text \<open>The loop of \<^verbatim>\<open>Query\<close> over the series IDs found.\<close>

fun query_series ::
  "'db kvstore \<Rightarrow> 'db badgerStorage \<Rightarrow> QueryRequest \<Rightarrow> uint64 list \<Rightarrow> Series list
     \<Rightarrow> (error + Series list) option" where
  "query_series kv s req [] acc = Some (Inr acc)"
| "query_series kv s req (seriesID # rest) acc =
     (case GetSeries (index s) seriesID of
        None \<Rightarrow> query_series kv s req rest acc
      | Some meta \<Rightarrow>
          (case read_blocks kv s req seriesID (Unix (Truncate_Hour (StartTime req)))
                  (Unix (Truncate_Hour (EndTime req))) [] of
             None \<Rightarrow> None
           | Some (Inl err) \<Rightarrow> Some (Inl err)
           | Some (Inr samples) \<Rightarrow>
               query_series kv s req rest
                 (if length samples > 0
                  then acc @ [\<lparr> Series.Metric = seriesMetadata.Metric meta, Samples = samples \<rparr>]
                  else acc)))"

text \<open>
  \<^verbatim>\<open>Query\<close>. The selectors hold at most one entry, so \<^verbatim>\<open>FindSeries\<close> leaves the index
  as it is. The result is \<open>None\<close> when the call does not return, \<open>Inl\<close> of the panic
  when it panics, and the query result otherwise (the error result is always \<^verbatim>\<open>nil\<close>).
\<close>

definition badgerStorage_Query ::
  "'db kvstore \<Rightarrow> 'db badgerStorage \<Rightarrow> QueryRequest \<Rightarrow> (error + QueryResult) option" where
  "badgerStorage_Query kv s req =
     (let labelSelectors = parseLabelSelectors (Query req);
          seriesIDs = fst (FindSeries (index s) labelSelectors)
      in case query_series kv s req seriesIDs [] of
           None \<Rightarrow> None
         | Some (Inl err) \<Rightarrow> Some (Inl err)
         | Some (Inr found) \<Rightarrow> Some (Inr \<lparr> QueryResult.Series = found, Error = None \<rparr>))"


subsection \<open>A store and a request for concrete runs\<close>

text \<open>
  An in-memory store: a map from keys to payloads, where \<open>txn_Set\<close> always succeeds and
  \<open>txn_Get\<close> fails on a missing key. \<open>new_storage\<close> is an engine on the empty store, with
  an empty index and the compressor \<open>stored_frames\<close>.
\<close>

definition mem_kv :: "(byte list \<rightharpoonup> blockPayload) kvstore" where
  "mem_kv =
     \<lparr> txn_Set = (\<lambda>d k payload. Inr (d(k \<mapsto> payload))),
       txn_Get = (\<lambda>d k. case d k of None \<Rightarrow> Inl (External ''Key not found'')
                                   | Some payload \<Rightarrow> Inr payload) \<rparr>"

definition new_storage :: "(byte list \<rightharpoonup> blockPayload) badgerStorage" where
  "new_storage = \<lparr> db = Map.empty, index = NewIndex, compressor = stored_frames \<rparr>"

subsection \<open>What a query is to return\<close>

text \<open>
  The specification of \<^verbatim>\<open>Query\<close>, in its own words. The instant of a time is its
  number of nanoseconds since the start of the year 1, where the seconds of a
  \<^verbatim>\<open>time.Time\<close> count from. The blocks to read are those that start
  at \<open>floor(startTime)\<close>, one hour later, and so on, up to \<open>floor(endTime)\<close>; from each
  block that can be read the samples strictly between \<open>startTime\<close> and \<open>endTime\<close> are
  kept; a series is part of the result when at least one of its samples is kept.
\<close>

definition instant :: "Time \<Rightarrow> int" where
  "instant t = sint (sec t) * 1000000000 + int (nanosecond t)"

definition strictly_inside :: "QueryRequest \<Rightarrow> Sample \<Rightarrow> bool" where
  "strictly_inside req sample \<longleftrightarrow>
     instant (StartTime req) < instant (Sample.Timestamp sample)
     \<and> instant (Sample.Timestamp sample) < instant (EndTime req)"

function hours_from :: "int \<Rightarrow> int \<Rightarrow> int list" where
  "hours_from b e = (if b \<le> e then b # hours_from (b + 3600) e else [])"
  by pat_completeness auto
termination
  by (relation "measure (\<lambda>(b, e). nat (e - b + 1))") auto

definition block_starts :: "QueryRequest \<Rightarrow> int64 list" where
  "block_starts req =
     map word_of_int
       (hours_from (sint (Unix (Truncate_Hour (StartTime req))))
          (sint (Unix (Truncate_Hour (EndTime req)))))"

definition kept_of_block ::
  "'db kvstore \<Rightarrow> 'db badgerStorage \<Rightarrow> QueryRequest \<Rightarrow> uint64 \<Rightarrow> int64 \<Rightarrow> Sample list" where
  "kept_of_block kv s req seriesID blockTime =
     (case readBlock kv s (QueryRequest.TenantID req) seriesID blockTime of
        Inl err \<Rightarrow> []
      | Inr block \<Rightarrow> filter (strictly_inside req) block)"

definition kept_of_series ::
  "'db kvstore \<Rightarrow> 'db badgerStorage \<Rightarrow> QueryRequest \<Rightarrow> uint64 \<Rightarrow> Sample list" where
  "kept_of_series kv s req seriesID =
     concat (map (kept_of_block kv s req seriesID) (block_starts req))"

definition series_of_result ::
  "'db kvstore \<Rightarrow> 'db badgerStorage \<Rightarrow> QueryRequest \<Rightarrow> uint64 \<Rightarrow> Series list" where
  "series_of_result kv s req seriesID =
     (case GetSeries (index s) seriesID of
        None \<Rightarrow> []
      | Some meta \<Rightarrow>
          if kept_of_series kv s req seriesID = [] then []
          else [\<lparr> Series.Metric = seriesMetadata.Metric meta,
                  Samples = kept_of_series kv s req seriesID \<rparr>])"

definition Query_spec :: "'db kvstore \<Rightarrow> 'db badgerStorage \<Rightarrow> QueryRequest \<Rightarrow> QueryResult" where
  "Query_spec kv s req =
     \<lparr> QueryResult.Series =
         concat (map (series_of_result kv s req)
           (fst (FindSeries (index s) (parseLabelSelectors (Query req))))),
       Error = None \<rparr>"

text \<open>A read of a block that ends in a panic.\<close>

definition panics :: "error + 'a \<Rightarrow> bool" where
  "panics r = (case r of Inl err \<Rightarrow> is_panic err | Inr x \<Rightarrow> False)"


subsection \<open>Stores and payloads\<close>

text \<open>
  A store behaves like a map when a successful \<open>txn_Set\<close> makes \<open>txn_Get\<close> return the new
  payload under its key and changes nothing under the other keys. A payload is well
  formed when it declares at least one sample and no more than a slice of samples can
  hold, and both compressed fields are non-empty; a store is sound when every payload
  it returns is well formed and a failing read returns an error value.
\<close>

definition kv_lawful :: "'db kvstore \<Rightarrow> bool" where
  "kv_lawful kv \<longleftrightarrow>
     (\<forall>d k payload d'. txn_Set kv d k payload = Inr d' \<longrightarrow>
        (\<forall>k'. txn_Get kv d' k' = (if k' = k then Inr payload else txn_Get kv d k')))"

definition well_formed :: "blockPayload \<Rightarrow> bool" where
  "well_formed payload \<longleftrightarrow>
     1 \<le> Count payload \<and> 32 * Count payload \<le> maxAlloc
     \<and> CompressedTS payload \<noteq> [] \<and> CompressedValues payload \<noteq> []"

definition store_sound :: "'db kvstore \<Rightarrow> 'db \<Rightarrow> bool" where
  "store_sound kv d \<longleftrightarrow>
     (\<forall>k payload. txn_Get kv d k = Inr payload \<longrightarrow> well_formed payload)
     \<and> (\<forall>k err. txn_Get kv d k = Inl err \<longrightarrow> \<not> is_panic err)"

text \<open>A sample with the sub-second part of its timestamp cut off.\<close>

definition seconds_only :: "Sample \<Rightarrow> Sample" where
  "seconds_only sample =
     sample\<lparr>Sample.Timestamp := time_Unix (Unix (Sample.Timestamp sample)) 0\<rparr>"


subsection \<open>A written engine and two queries for concrete runs\<close>

text \<open>
  The metric and the sample of the request \<open>test_write\<close> (the sample lies half a second
  after the second 1700000000, in the block that starts at 1699999200), a sample of the
  same block that lies exactly on a second, the engine when
  \<^verbatim>\<open>Write\<close> has indexed the series and is about to write the block, and the engine after
  the request. Then a query for the window from one second before that second to one
  second after it, and a query whose window ends exactly on that second.
\<close>

definition test_write_metric :: Metric where
  "test_write_metric = \<lparr> Name = ''test_metric'', Labels = [(''label'', ''value'')] \<rparr>"

definition test_write_sample :: Sample where
  "test_write_sample =
     \<lparr> Sample.Timestamp = \<lparr> unix_sec = 1700000000, nanosecond = 500000000 \<rparr>,
       Value = Float64frombits 0x4045000000000000 \<rparr>"

definition test_exact_sample :: Sample where
  "test_exact_sample =
     \<lparr> Sample.Timestamp = \<lparr> unix_sec = 1700000001, nanosecond = 0 \<rparr>,
       Value = Float64frombits 0x4045800000000000 \<rparr>"

definition indexed_storage :: "(byte list \<rightharpoonup> blockPayload) badgerStorage" where
  "indexed_storage = new_storage\<lparr>index := snd (AddSeries NewIndex test_write_metric)\<rparr>"

definition written_storage :: "(byte list \<rightharpoonup> blockPayload) badgerStorage" where
  "written_storage = snd (badgerStorage_Write mem_kv new_storage test_write)"

definition test_query :: QueryRequest where
  "test_query =
     \<lparr> QueryRequest.TenantID = ''test'', Query = ''test_metric'',
       StartTime = \<lparr> unix_sec = 1699999999, nanosecond = 0 \<rparr>,
       EndTime = \<lparr> unix_sec = 1700000001, nanosecond = 0 \<rparr> \<rparr>"

definition edge_query :: QueryRequest where
  "edge_query =
     \<lparr> QueryRequest.TenantID = ''test'', Query = ''test_metric'',
       StartTime = \<lparr> unix_sec = 1699999999, nanosecond = 0 \<rparr>,
       EndTime = \<lparr> unix_sec = 1700000000, nanosecond = 0 \<rparr> \<rparr>"

section \<open>Properties of the codec\<close>

lemma ucast_byte_of_drop_bit:
  "(ucast (ucast (drop_bit k v :: 64 word) :: 8 word) :: 64 word) = take_bit 8 (drop_bit k v)"
  by (rule bit_word_eqI) (simp add: bit_simps)

lemma uint64_as_bytes:
  fixes v :: "64 word"
  shows "v = take_bit 8 v OR push_bit 8 (take_bit 8 (drop_bit 8 v))
     OR push_bit 16 (take_bit 8 (drop_bit 16 v)) OR push_bit 24 (take_bit 8 (drop_bit 24 v))
     OR push_bit 32 (take_bit 8 (drop_bit 32 v)) OR push_bit 40 (take_bit 8 (drop_bit 40 v))
     OR push_bit 48 (take_bit 8 (drop_bit 48 v)) OR push_bit 56 (take_bit 8 (drop_bit 56 v))"
    (is "v = ?r")
proof (rule bit_word_eqI)
  fix n
  assume "n < LENGTH(64)"
  then consider "n < 8" | "8 \<le> n" "n < 16" | "16 \<le> n" "n < 24" | "24 \<le> n" "n < 32"
    | "32 \<le> n" "n < 40" | "40 \<le> n" "n < 48" | "48 \<le> n" "n < 56" | "56 \<le> n" "n < 64"
    by fastforce
  then show "bit v n = bit ?r n"
    by cases (auto simp add: bit_simps)
qed

lemma Uint64_PutUint64: "Uint64 (PutUint64 v @ rest) = v"
proof -
  have "ucast (ucast v :: 8 word) = (take_bit 8 v :: 64 word)"
    using ucast_byte_of_drop_bit [of 0 v] by simp
  with uint64_as_bytes [of v] show ?thesis
    by (simp add: PutUint64_def Uint64_def ucast_byte_of_drop_bit)
qed

lemma length_PutUint64: "length (PutUint64 v) = 8"
  by (simp add: PutUint64_def)

lemma binary_Read_PutUint64: "binary_Read (PutUint64 v @ rest) = Inr (v, rest)"
proof -
  have "take 8 (PutUint64 v @ rest) = PutUint64 v" "drop 8 (PutUint64 v @ rest) = rest"
    by (simp_all add: length_PutUint64)
  moreover have "Uint64 (PutUint64 v) = v"
    using Uint64_PutUint64 [of v "[]"] by simp
  moreover have "PutUint64 v @ rest \<noteq> []" "\<not> length (PutUint64 v @ rest) < 8"
    by (simp_all add: PutUint64_def)
  ultimately show ?thesis
    unfolding binary_Read_def by simp
qed

lemma binary_Read_short:
  "length buf < 8 \<Longrightarrow> binary_Read buf = Inl (if buf = [] then EOF else ErrUnexpectedEOF)"
  by (simp add: binary_Read_def)

lemma write_deltas_append:
  "write_deltas buf prev prevDelta ts = buf @ write_deltas [] prev prevDelta ts"
proof (induction ts arbitrary: buf prev prevDelta)
  case Nil
  show ?case by simp
next
  case (Cons t ts)
  show ?case
    using Cons.IH [of "binary_Write buf (t - prev - prevDelta)"]
      Cons.IH [of "binary_Write [] (t - prev - prevDelta)"]
    by (simp add: Let_def binary_Write_def)
qed

lemma read_write_deltas:
  "read_deltas (length ts) (write_deltas [] prev prevDelta ts @ rest) acc prev prevDelta
     = Inr (acc @ ts)"
proof (induction ts arbitrary: prev prevDelta acc)
  case Nil
  show ?case by simp
next
  case (Cons t ts)
  have "write_deltas [] prev prevDelta (t # ts)
      = PutUint64 (t - prev - prevDelta) @ write_deltas [] t (t - prev) ts"
    using write_deltas_append [of "PutUint64 (t - prev - prevDelta)" t "t - prev" ts]
    by (simp add: Let_def binary_Write_def)
  then show ?case
    using Cons.IH [of t "t - prev" "acc @ [t]"]
    by (simp add: binary_Read_PutUint64 Let_def)
qed

lemma write_xors_append: "write_xors buf prevBits vs = buf @ write_xors [] prevBits vs"
proof (induction vs arbitrary: buf prevBits)
  case Nil
  show ?case by simp
next
  case (Cons v vs)
  show ?case
    using Cons.IH [of "binary_Write buf (Float64bits v XOR prevBits)"]
      Cons.IH [of "binary_Write [] (Float64bits v XOR prevBits)"]
    by (simp add: Let_def binary_Write_def)
qed

lemma read_write_xors:
  "read_xors (length vs) (write_xors [] prevBits vs @ rest) acc prevBits = Inr (acc @ vs)"
proof (induction vs arbitrary: prevBits acc)
  case Nil
  show ?case by simp
next
  case (Cons v vs)
  have "write_xors [] prevBits (v # vs)
      = PutUint64 (Float64bits v XOR prevBits) @ write_xors [] (Float64bits v) vs"
    using write_xors_append [of "PutUint64 (Float64bits v XOR prevBits)" "Float64bits v" vs]
    by (simp add: Let_def binary_Write_def)
  moreover have "(Float64bits v XOR prevBits) XOR prevBits = Float64bits v"
    by (simp add: xor.assoc)
  ultimately show ?case
    using Cons.IH [of "Float64bits v" "acc @ [v]"]
    by (simp add: binary_Read_PutUint64 Let_def)
qed

lemma makeslice_fits:
  "0 \<le> n \<Longrightarrow> elemSize * n \<le> maxAlloc \<Longrightarrow> makeslice elemSize n = None"
  by (simp add: makeslice_def)

lemma timestamps_round_trip:
  assumes "zstd_lossless c" and "ts \<noteq> []" and "8 * int (length ts) \<le> maxAlloc"
  shows "\<exists>d. CompressTimestamps c ts = Inr d \<and> d \<noteq> []
    \<and> DecompressTimestamps c d (int (length ts)) = Inr ts"
proof -
  from assms(2) obtain t0 rest where ts: "ts = t0 # rest"
    by (cases ts) auto
  define raw where "raw = write_deltas (binary_Write [] t0) t0 0 rest"
  have raw: "raw = PutUint64 t0 @ write_deltas [] t0 0 rest"
    unfolding raw_def using write_deltas_append [of "PutUint64 t0" t0 0 rest]
    by (simp add: binary_Write_def)
  then have "raw \<noteq> []"
    by (simp add: PutUint64_def)
  with assms(1) have enc: "encoder c raw \<noteq> []" and dec: "decoder c (encoder c raw) = Inr raw"
    by (simp_all add: zstd_lossless_def)
  have "read_deltas (length rest) (write_deltas [] t0 0 rest) [t0] t0 0 = Inr (t0 # rest)"
    using read_write_deltas [of rest t0 0 "[]" "[t0]"] by simp
  moreover have "makeslice 8 (int (length ts)) = None"
    using assms(3) by (simp add: makeslice_fits)
  ultimately have "DecompressTimestamps c (encoder c raw) (int (length ts)) = Inr ts"
    using enc dec by (simp add: DecompressTimestamps_def raw binary_Read_PutUint64 ts)
  moreover have "CompressTimestamps c ts = Inr (encoder c raw)"
    by (simp add: CompressTimestamps_def ts raw_def)
  ultimately show ?thesis
    using enc by blast
qed

lemma values_round_trip:
  assumes "zstd_lossless c" and "vs \<noteq> []" and "8 * int (length vs) \<le> maxAlloc"
  shows "\<exists>d. CompressValues c vs = Inr d \<and> d \<noteq> []
    \<and> DecompressValues c d (int (length vs)) = Inr vs"
proof -
  from assms(2) obtain v0 rest where vs: "vs = v0 # rest"
    by (cases vs) auto
  define raw where "raw = write_xors (binary_Write [] (Float64bits v0)) (Float64bits v0) rest"
  have raw: "raw = PutUint64 (Float64bits v0) @ write_xors [] (Float64bits v0) rest"
    unfolding raw_def
    using write_xors_append [of "PutUint64 (Float64bits v0)" "Float64bits v0" rest]
    by (simp add: binary_Write_def)
  then have "raw \<noteq> []"
    by (simp add: PutUint64_def)
  with assms(1) have enc: "encoder c raw \<noteq> []" and dec: "decoder c (encoder c raw) = Inr raw"
    by (simp_all add: zstd_lossless_def)
  have "read_xors (length rest) (write_xors [] (Float64bits v0) rest) [v0] (Float64bits v0)
      = Inr (v0 # rest)"
    using read_write_xors [of rest "Float64bits v0" "[]" "[v0]"] by simp
  moreover have "makeslice 8 (int (length vs)) = None"
    using assms(3) by (simp add: makeslice_fits)
  ultimately have "DecompressValues c (encoder c raw) (int (length vs)) = Inr vs"
    using enc dec by (simp add: DecompressValues_def raw binary_Read_PutUint64 vs)
  moreover have "CompressValues c vs = Inr (encoder c raw)"
    by (simp add: CompressValues_def vs raw_def)
  ultimately show ?thesis
    using enc by blast
qed

lemma zstd_lossless_stored_frames: "zstd_lossless stored_frames"
  by (simp add: zstd_lossless_def stored_frames_def)

text \<open>
  C1. Round trip of the codec. With a lossless zstd, for every non-empty list \<open>ts\<close> of
  \<^verbatim>\<open>int64\<close> timestamps, increasing or not, \<^verbatim>\<open>DecompressTimestamps(CompressTimestamps(ts), len(ts))\<close>
  returns exactly \<open>ts\<close>, and for every non-empty list \<open>vs\<close> of \<^verbatim>\<open>float64\<close> values
  \<^verbatim>\<open>DecompressValues(CompressValues(vs), len(vs))\<close> returns a list bit-identical to
  \<open>vs\<close> (a \<open>float64\<close> is its bit pattern, so NaN, the infinities and negative zero are
  ordinary elements). The lists are slices of the program: a slice of 8-byte elements
  that exists takes at most \<^verbatim>\<open>maxAlloc\<close> bytes, so the \<^verbatim>\<open>make\<close> of the decompressor with
  the count \<^verbatim>\<open>len(ts)\<close> or \<^verbatim>\<open>len(vs)\<close> does not panic.
\<close>

theorem codec_round_trip:
  assumes "zstd_lossless c" and "ts \<noteq> []" and "vs \<noteq> []"
    and "8 * int (length ts) \<le> maxAlloc" and "8 * int (length vs) \<le> maxAlloc"
  shows "(\<exists>d. CompressTimestamps c ts = Inr d
            \<and> DecompressTimestamps c d (int (length ts)) = Inr ts)
       \<and> (\<exists>d. CompressValues c vs = Inr d
            \<and> DecompressValues c d (int (length vs)) = Inr vs
            \<and> map Float64bits (projr (DecompressValues c d (int (length vs))))
                = map Float64bits vs)"
proof -
  from timestamps_round_trip [OF assms(1,2,4)] values_round_trip [OF assms(1,3,5)]
  show ?thesis by fastforce
qed

text \<open>
  The round trip on a decreasing-then-repeating timestamp list with the extreme
  \<^verbatim>\<open>int64\<close> values, and on the values NaN (with a payload), \<open>+Inf\<close>, \<open>-Inf\<close> and \<open>-0.0\<close>.
\<close>

theorem codec_round_trip_witness:
  "zstd_lossless stored_frames
   \<and> [1700000000, 1699999940, 1699999940, 0x7FFFFFFFFFFFFFFF, 0x8000000000000000] \<noteq> ([] :: int64 list)
   \<and> [Float64frombits 0x7FF8000000000001, Float64frombits 0x7FF0000000000000,
       Float64frombits 0xFFF0000000000000, Float64frombits 0x8000000000000000] \<noteq> []
   \<and> 8 * 5 \<le> maxAlloc \<and> 8 * 4 \<le> maxAlloc
   \<and> (\<exists>d. CompressTimestamps stored_frames
              [1700000000, 1699999940, 1699999940, 0x7FFFFFFFFFFFFFFF, 0x8000000000000000] = Inr d
          \<and> DecompressTimestamps stored_frames d 5
              = Inr [1700000000, 1699999940, 1699999940, 0x7FFFFFFFFFFFFFFF, 0x8000000000000000])
   \<and> (\<exists>d. CompressValues stored_frames
              [Float64frombits 0x7FF8000000000001, Float64frombits 0x7FF0000000000000,
               Float64frombits 0xFFF0000000000000, Float64frombits 0x8000000000000000] = Inr d
          \<and> DecompressValues stored_frames d 4
              = Inr [Float64frombits 0x7FF8000000000001, Float64frombits 0x7FF0000000000000,
                     Float64frombits 0xFFF0000000000000, Float64frombits 0x8000000000000000]
          \<and> map Float64bits (projr (DecompressValues stored_frames d 4))
              = map Float64bits
                  [Float64frombits 0x7FF8000000000001, Float64frombits 0x7FF0000000000000,
                   Float64frombits 0xFFF0000000000000, Float64frombits 0x8000000000000000])"
proof -
  have lossless: "zstd_lossless stored_frames"
    by (simp add: zstd_lossless_def stored_frames_def)
  have "length [1700000000, 1699999940, 1699999940, 0x7FFFFFFFFFFFFFFF, 0x8000000000000000 :: int64] = 5"
    and "length [Float64frombits 0x7FF8000000000001, Float64frombits 0x7FF0000000000000,
       Float64frombits 0xFFF0000000000000, Float64frombits 0x8000000000000000] = 4"
    by simp_all
  moreover have fits: "8 * 5 \<le> maxAlloc" "8 * 4 \<le> maxAlloc"
    by (simp_all add: maxAlloc_def)
  ultimately show ?thesis
    using codec_round_trip [OF lossless,
      of "[1700000000, 1699999940, 1699999940, 0x7FFFFFFFFFFFFFFF, 0x8000000000000000]"
         "[Float64frombits 0x7FF8000000000001, Float64frombits 0x7FF0000000000000,
           Float64frombits 0xFFF0000000000000, Float64frombits 0x8000000000000000]"]
      lossless by (simp del: list.map)
qed

lemma binary_Read_long:
  assumes "\<not> length buf < 8"
  shows "binary_Read buf = Inr (Uint64 (take 8 buf), drop 8 buf)"
proof -
  from assms have "buf \<noteq> []"
    by (cases buf) simp_all
  with assms show ?thesis
    unfolding binary_Read_def by (simp only: if_False)
qed

lemma short_rest:
  "\<not> length buf < 8 \<Longrightarrow> length buf < 8 * Suc n \<Longrightarrow>
     length (drop 8 buf) < 8 * n \<and> (8 dvd length (drop 8 buf) \<longleftrightarrow> 8 dvd length buf)"
proof -
  assume long: "\<not> length buf < 8" and short: "length buf < 8 * Suc n"
  from long obtain k where k: "length buf = k + 8"
    by (metis le_add_diff_inverse2 not_less)
  with short show ?thesis
    by simp
qed

lemma short_error:
  "length buf < 8 \<Longrightarrow>
     binary_Read buf = Inl (if 8 dvd length buf then EOF else ErrUnexpectedEOF)"
proof -
  assume short: "length buf < 8"
  then have "8 dvd length buf \<longleftrightarrow> buf = []"
    by (auto dest: dvd_imp_le)
  with short show ?thesis
    by (simp add: binary_Read_def)
qed

lemma read_deltas_short:
  "length buf < 8 * n \<Longrightarrow>
   read_deltas n buf acc prev prevDelta
     = Inl (if 8 dvd length buf then EOF else ErrUnexpectedEOF)"
proof (induction n arbitrary: buf acc prev prevDelta)
  case 0
  then show ?case by simp
next
  case (Suc n)
  show ?case
  proof (cases "length buf < 8")
    case True
    then show ?thesis
      by (simp add: short_error)
  next
    case False
    from short_rest [OF False Suc.prems] Suc.IH [of "drop 8 buf"]
    show ?thesis
      by (simp add: binary_Read_long [OF False] Let_def)
  qed
qed

lemma read_xors_short:
  "length buf < 8 * n \<Longrightarrow>
   read_xors n buf acc prevBits = Inl (if 8 dvd length buf then EOF else ErrUnexpectedEOF)"
proof (induction n arbitrary: buf acc prevBits)
  case 0
  then show ?case by simp
next
  case (Suc n)
  show ?case
  proof (cases "length buf < 8")
    case True
    then show ?thesis
      by (simp add: short_error)
  next
    case False
    from short_rest [OF False Suc.prems] Suc.IH [of "drop 8 buf"]
    show ?thesis
      by (simp add: binary_Read_long [OF False] Let_def)
  qed
qed

lemma DecompressTimestamps_short:
  assumes "1 \<le> n" and "8 * n \<le> maxAlloc" and "data \<noteq> []" and "decoder c data = Inr buf"
    and "int (length buf) < 8 * n"
  shows "DecompressTimestamps c data n
    = Inl (if 8 dvd length buf then EOF else ErrUnexpectedEOF)"
proof -
  define m where "m = nat (n - 1)"
  have n: "n = int (Suc m)"
    using assms(1) by (simp add: m_def)
  with assms(5) have short: "length buf < 8 * Suc m"
    by simp
  have fits: "makeslice 8 (int (Suc m)) = None"
    using assms(2) makeslice_fits [of "int (Suc m)" 8] by (simp add: n)
  have start: "DecompressTimestamps c data n =
      (case binary_Read buf of Inl e \<Rightarrow> Inl e
       | Inr (t0, buf') \<Rightarrow> read_deltas m buf' [t0] t0 0)"
    using assms(3,4) fits by (simp add: DecompressTimestamps_def n split: sum.splits prod.splits)
  show ?thesis
  proof (cases "length buf < 8")
    case True
    then show ?thesis
      by (simp add: start short_error)
  next
    case False
    from short_rest [OF False short] show ?thesis
      by (simp add: start binary_Read_long [OF False] read_deltas_short)
  qed
qed

lemma DecompressValues_short:
  assumes "1 \<le> n" and "8 * n \<le> maxAlloc" and "data \<noteq> []" and "decoder c data = Inr buf"
    and "int (length buf) < 8 * n"
  shows "DecompressValues c data n
    = Inl (if 8 dvd length buf then EOF else ErrUnexpectedEOF)"
proof -
  define m where "m = nat (n - 1)"
  have n: "n = int (Suc m)"
    using assms(1) by (simp add: m_def)
  with assms(5) have short: "length buf < 8 * Suc m"
    by simp
  have fits: "makeslice 8 (int (Suc m)) = None"
    using assms(2) makeslice_fits [of "int (Suc m)" 8] by (simp add: n)
  have start: "DecompressValues c data n =
      (case binary_Read buf of Inl e \<Rightarrow> Inl e
       | Inr (firstBits, buf') \<Rightarrow> read_xors m buf' [Float64frombits firstBits] firstBits)"
    using assms(3,4) fits by (simp add: DecompressValues_def n split: sum.splits prod.splits)
  show ?thesis
  proof (cases "length buf < 8")
    case True
    then show ?thesis
      by (simp add: start short_error)
  next
    case False
    from short_rest [OF False short] show ?thesis
      by (simp add: start binary_Read_long [OF False] read_xors_short)
  qed
qed

lemma DecompressTimestamps_empty: "DecompressTimestamps c [] n = Inr []"
  unfolding DecompressTimestamps_def by simp

lemma DecompressValues_empty: "DecompressValues c [] n = Inr []"
  unfolding DecompressValues_def by simp

text \<open>
  C3, as the code has it. For every declared count \<open>n \<ge> 1\<close> that \<^verbatim>\<open>make\<close> can allocate
  (\<open>8 * n\<close> bytes are at most \<^verbatim>\<open>maxAlloc\<close>) and every non-empty input \<open>data\<close> that zstd
  decodes to a buffer shorter than \<open>8 * n\<close> bytes, \<^verbatim>\<open>DecompressTimestamps(data, n)\<close> and
  \<^verbatim>\<open>DecompressValues(data, n)\<close> fail: with \<^verbatim>\<open>io.EOF\<close> when the buffer ends on an
  element boundary and with \<^verbatim>\<open>io.ErrUnexpectedEOF\<close> otherwise. An entirely empty input
  is not decoded at all: both functions return an empty result and no error there,
  whatever the count.
\<close>

theorem decompress_truncated_fails:
  assumes "1 \<le> n" and "8 * n \<le> maxAlloc" and "data \<noteq> []" and "decoder c data = Inr buf"
    and "int (length buf) < 8 * n"
  shows "DecompressTimestamps c data n = Inl (if 8 dvd length buf then EOF else ErrUnexpectedEOF)
       \<and> DecompressValues c data n = Inl (if 8 dvd length buf then EOF else ErrUnexpectedEOF)
       \<and> DecompressTimestamps c [] n = Inr []
       \<and> DecompressValues c [] n = Inr []"
  using DecompressTimestamps_short [OF assms] DecompressValues_short [OF assms]
    DecompressTimestamps_empty [of c n] DecompressValues_empty [of c n]
  by blast

text \<open>
  A frame holding one full element and four more bytes, read with a declared count of 2.
\<close>

theorem decompress_truncated_fails_witness:
  "(1 :: int) \<le> 2 \<and> 8 * 2 \<le> maxAlloc
   \<and> [0x28, 0xB5, 0x2F, 0xFD, 1, 2, 3, 4, 5, 6, 7, 8, 9, 10, 11, 12] \<noteq> ([] :: byte list)
   \<and> decoder stored_frames [0x28, 0xB5, 0x2F, 0xFD, 1, 2, 3, 4, 5, 6, 7, 8, 9, 10, 11, 12]
       = Inr [1, 2, 3, 4, 5, 6, 7, 8, 9, 10, 11, 12]
   \<and> int (length [1, 2, 3, 4, 5, 6, 7, 8, 9, 10, 11, 12 :: byte]) < 8 * 2
   \<and> DecompressTimestamps stored_frames
        [0x28, 0xB5, 0x2F, 0xFD, 1, 2, 3, 4, 5, 6, 7, 8, 9, 10, 11, 12] 2 = Inl ErrUnexpectedEOF
   \<and> DecompressValues stored_frames
        [0x28, 0xB5, 0x2F, 0xFD, 1, 2, 3, 4, 5, 6, 7, 8, 9, 10, 11, 12] 2 = Inl ErrUnexpectedEOF"
proof -
  have dec: "decoder stored_frames [0x28, 0xB5, 0x2F, 0xFD, 1, 2, 3, 4, 5, 6, 7, 8, 9, 10, 11, 12]
      = Inr [1, 2, 3, 4, 5, 6, 7, 8, 9, 10, 11, 12]"
    by (simp add: stored_frames_def)
  have len: "length [1, 2, 3, 4, 5, 6, 7, 8, 9, 10, 11, 12 :: byte] = 12"
    by simp
  have "\<not> (8 :: nat) dvd 12"
    by simp
  moreover have fits: "8 * 2 \<le> maxAlloc"
    by (simp add: maxAlloc_def)
  ultimately show ?thesis
    using decompress_truncated_fails [OF _ fits _ dec] dec
    unfolding len by simp
qed

text \<open>
  The claim as the specification states it includes the entirely empty input buffer,
  and there it fails: with a declared count of 1 both functions return an empty result
  and no error.
\<close>

theorem decompress_empty_input_counterexample:
  "DecompressTimestamps stored_frames [] 1 = Inr []
   \<and> DecompressValues stored_frames [] 1 = Inr []"
  using DecompressTimestamps_empty [of stored_frames 1] DecompressValues_empty [of stored_frames 1]
  by blast

section \<open>Properties of the index\<close>

lemma sort_keys_eq:
  assumes "distinct (map fst ls)" and "distinct (map fst ls')" and "map_of ls' = map_of ls"
  shows "sort (map fst ls') = sort (map fst ls)"
proof -
  have "set (map fst ls') = dom (map_of ls')" "set (map fst ls) = dom (map_of ls)"
    by (simp_all add: dom_map_of_conv_image_fst)
  with assms(3) have "set (sort (map fst ls')) = set (sort (map fst ls))"
    by simp
  moreover have "distinct (sort (map fst ls'))" "distinct (sort (map fst ls))"
    using assms(1,2) by simp_all
  ultimately show ?thesis
    by (intro sorted_distinct_set_unique) simp_all
qed

lemma fingerprint_bytes_eq:
  assumes "Name m' = Name m" and "map_of (Labels m') = map_of (Labels m)"
    and "distinct (map fst (Labels m))" and "distinct (map fst (Labels m'))"
  shows "fingerprint_bytes m' = fingerprint_bytes m"
proof -
  have "label_value (Labels m') = label_value (Labels m)"
    using assms(2) by (simp add: label_value_def fun_eq_iff)
  with sort_keys_eq [OF assms(3,4,2)] assms(1) show ?thesis
    by (simp add: fingerprint_bytes_def)
qed

lemma fp1: "calculateFingerprint test_metric1 = 9980026165565679186"
  by code_simp

lemma fp2: "calculateFingerprint test_metric2 = 9980026165565679186"
  by code_simp

lemma fp3: "calculateFingerprint test_metric3 = 9980027265077307397"
  by code_simp


lemma fp_renamed: "calculateFingerprint test_metric_renamed = 5656311911883541077"
  by code_simp

lemma same_test_labels:
  "map_of (Labels test_metric2) = map_of (Labels test_metric1)"
  by (auto simp add: test_metric1_def test_metric2_def fun_eq_iff)

lemma series_index_label: "series (index_label idx name v fp) = series idx"
  by (simp add: index_label_def Let_def)

lemma series_foldl_index_label:
  "series (foldl (\<lambda>i (name, v). index_label i name v fp) idx ls) = series idx"
  by (induction ls arbitrary: idx) (simp_all add: series_index_label split_def)

lemma AddSeries_known:
  "map_of (series idx) (calculateFingerprint m) = Some meta \<Longrightarrow>
     AddSeries idx m = (ID meta, idx)"
  by (simp add: AddSeries_def)

lemma AddSeries_new:
  assumes "map_of (series idx) (calculateFingerprint m) = None"
  shows "fst (AddSeries idx m) = calculateFingerprint m"
    and "series (snd (AddSeries idx m)) =
      series idx @ [(calculateFingerprint m,
        \<lparr> ID = calculateFingerprint m, seriesMetadata.Metric = m, MinTime = 0, MaxTime = 0 \<rparr>)]"
  using assms
  by (simp_all add: AddSeries_def Let_def series_foldl_index_label series_index_label)

lemma AddSeries_again:
  assumes "calculateFingerprint m' = calculateFingerprint m"
  shows "AddSeries (snd (AddSeries idx m)) m' = AddSeries idx m"
proof (cases "map_of (series idx) (calculateFingerprint m)")
  case (Some meta)
  then show ?thesis
    using assms by (simp add: AddSeries_known)
next
  case None
  let ?fp = "calculateFingerprint m"
  let ?meta = "\<lparr> ID = ?fp, seriesMetadata.Metric = m, MinTime = 0, MaxTime = 0 \<rparr>"
  from AddSeries_new [OF None]
  have first: "fst (AddSeries idx m) = ?fp"
    and ser: "series (snd (AddSeries idx m)) = series idx @ [(?fp, ?meta)]"
    by simp_all
  from None have "map_of (series (snd (AddSeries idx m))) ?fp = Some ?meta"
    by (simp add: ser map_add_def)
  then have "AddSeries (snd (AddSeries idx m)) m' = (ID ?meta, snd (AddSeries idx m))"
    using assms AddSeries_known [of "snd (AddSeries idx m)" m' ?meta] by simp
  with first show ?thesis
    by (simp add: prod_eq_iff)
qed

lemma SeriesCount_AddSeries:
  "SeriesCount (snd (AddSeries idx m)) =
     SeriesCount idx + (if GetSeries idx (calculateFingerprint m) = None then 1 else 0)"
proof (cases "map_of (series idx) (calculateFingerprint m)")
  case (Some meta)
  then show ?thesis
    by (simp add: AddSeries_known GetSeries_def)
next
  case None
  from AddSeries_new(2) [OF None] None show ?thesis
    by (simp add: SeriesCount_def GetSeries_def)
qed

text \<open>
  C4. The fingerprint depends on the name and on the label mapping only: two metrics
  with the same name and the same label mapping, whatever the order in which their
  labels are listed or visited, have the same fingerprint. On the inputs of
  \<^verbatim>\<open>TestCalculateFingerprint\<close>, listing the labels in the other order leaves the
  fingerprint unchanged, changing the value of label \<open>b\<close> from 2 to 3 changes it, and so
  does changing the metric name.
\<close>

theorem fingerprint_order_independent:
  assumes "Name m' = Name m" and "map_of (Labels m') = map_of (Labels m)"
    and "distinct (map fst (Labels m))" and "distinct (map fst (Labels m'))"
  shows "calculateFingerprint m' = calculateFingerprint m
       \<and> calculateFingerprint test_metric2 = calculateFingerprint test_metric1
       \<and> calculateFingerprint test_metric3 \<noteq> calculateFingerprint test_metric1
       \<and> calculateFingerprint test_metric_renamed \<noteq> calculateFingerprint test_metric1"
proof -
  have "calculateFingerprint m' = calculateFingerprint m"
    using fingerprint_bytes_eq [OF assms] by (simp add: calculateFingerprint_def)
  then show ?thesis
    by (simp add: fp1 fp2 fp3 fp_renamed)
qed

theorem fingerprint_order_independent_witness:
  "Name test_metric2 = Name test_metric1
   \<and> map_of (Labels test_metric2) = map_of (Labels test_metric1)
   \<and> distinct (map fst (Labels test_metric1))
   \<and> distinct (map fst (Labels test_metric2))
   \<and> Labels test_metric2 \<noteq> Labels test_metric1
   \<and> calculateFingerprint test_metric2 = calculateFingerprint test_metric1"
proof -
  have "Name test_metric2 = Name test_metric1"
    and "distinct (map fst (Labels test_metric1))"
    and "distinct (map fst (Labels test_metric2))"
    and "Labels test_metric2 \<noteq> Labels test_metric1"
    by (simp_all add: test_metric1_def test_metric2_def)
  with fingerprint_order_independent [of test_metric2 test_metric1] same_test_labels
  show ?thesis
    by blast
qed

text \<open>
  C6. \<^verbatim>\<open>AddSeries\<close> is idempotent. Called twice with the same metric (same name and
  label mapping, the labels in any order), it returns the same series ID both times and
  the second call leaves the whole index as the first call left it: no series is added
  and no metadata or time bound changes. Over the two calls \<^verbatim>\<open>SeriesCount()\<close> grows by
  exactly one when the fingerprint was not indexed before, and not at all when it was.
\<close>

theorem AddSeries_idempotent:
  assumes "Name m' = Name m" and "map_of (Labels m') = map_of (Labels m)"
    and "distinct (map fst (Labels m))" and "distinct (map fst (Labels m'))"
  shows "fst (AddSeries (snd (AddSeries idx m)) m') = fst (AddSeries idx m)
       \<and> snd (AddSeries (snd (AddSeries idx m)) m') = snd (AddSeries idx m)
       \<and> SeriesCount (snd (AddSeries (snd (AddSeries idx m)) m'))
           = SeriesCount idx + (if GetSeries idx (calculateFingerprint m) = None then 1 else 0)"
proof -
  have "calculateFingerprint m' = calculateFingerprint m"
    using fingerprint_bytes_eq [OF assms] by (simp add: calculateFingerprint_def)
  from AddSeries_again [OF this, of idx] SeriesCount_AddSeries [of idx m]
  show ?thesis by simp
qed

lemma AddSeries_NewIndex_test_metric1:
  "fst (AddSeries NewIndex test_metric1) = 9980026165565679186"
  using AddSeries_new(1) [of NewIndex test_metric1]
  by (simp add: NewIndex_def fp1)

theorem AddSeries_idempotent_witness:
  "Name test_metric2 = Name test_metric1
   \<and> map_of (Labels test_metric2) = map_of (Labels test_metric1)
   \<and> distinct (map fst (Labels test_metric1))
   \<and> distinct (map fst (Labels test_metric2))
   \<and> fst (AddSeries NewIndex test_metric1) = 9980026165565679186
   \<and> fst (AddSeries (snd (AddSeries NewIndex test_metric1)) test_metric2) = 9980026165565679186
   \<and> SeriesCount NewIndex = 0
   \<and> SeriesCount (snd (AddSeries (snd (AddSeries NewIndex test_metric1)) test_metric2)) = 1"
proof -
  have same: "Name test_metric2 = Name test_metric1"
    and d1: "distinct (map fst (Labels test_metric1))"
    and d2: "distinct (map fst (Labels test_metric2))"
    by (simp_all add: test_metric1_def test_metric2_def)
  have before: "SeriesCount NewIndex = 0"
    "GetSeries NewIndex (calculateFingerprint test_metric1) = None"
    by (simp_all add: SeriesCount_def GetSeries_def NewIndex_def)
  note twice = AddSeries_idempotent [OF same same_test_labels d1 d2, of NewIndex]
  have "fst (AddSeries (snd (AddSeries NewIndex test_metric1)) test_metric2)
      = fst (AddSeries NewIndex test_metric1)"
    using twice [THEN conjunct1] .
  moreover
  have "SeriesCount (snd (AddSeries (snd (AddSeries NewIndex test_metric1)) test_metric2)) = 1"
    using twice [THEN conjunct2, THEN conjunct2] before by simp
  ultimately show ?thesis
    using same same_test_labels d1 d2 before AddSeries_NewIndex_test_metric1 by simp
qed



lemma set_merge_common:
  "sorted a \<Longrightarrow> sorted b \<Longrightarrow> set (merge_common a b) = set a \<inter> set b"
proof (induction a b rule: merge_common.induct)
  case (1 b)
  show ?case by simp
next
  case (2 x a)
  show ?case by simp
next
  case (3 x a y b)
  from "3.prems" have sa: "sorted a" and sb: "sorted b"
    and xa: "\<forall>z\<in>set a. x \<le> z" and yb: "\<forall>z\<in>set b. y \<le> z"
    by simp_all
  consider (lt) "x < y" | (gt) "y < x" | (eq) "x = y"
    by (cases x y rule: linorder_cases) auto
  then show ?case
  proof cases
    case lt
    with yb have "x \<notin> set (y # b)"
      by auto
    with lt "3.IH"(1) sa "3.prems"(2) show ?thesis
      by auto
  next
    case gt
    with xa have "y \<notin> set (x # a)"
      by auto
    with gt "3.IH"(2) "3.prems"(1) sb show ?thesis
      by auto
  next
    case eq
    with "3.IH"(3) sa sb show ?thesis
      by auto
  qed
qed

lemma set_intersect: "set (intersect a b) = set a \<inter> set b"
  by (simp add: intersect_def set_merge_common)

lemma ids_of_sort_bucket: "ids_of (sort_bucket idx n v) n' v' = ids_of idx n' v'"
  by (auto simp add: ids_of_def bucket_def sort_bucket_def split: option.splits)

lemma ids_of_absent: "bucket idx n v = None \<Longrightarrow> ids_of idx n v = {}"
  by (simp add: ids_of_def)

lemma find_loop_rest:
  "set (fst (find_loop idx sels found False))
     = set found \<inter> (\<Inter>(n, v)\<in>set sels. ids_of idx n v)"
proof (induction sels arbitrary: idx found)
  case Nil
  show ?case by simp
next
  case (Cons sel sels)
  obtain n v where sel: "sel = (n, v)"
    by (cases sel)
  show ?case
  proof (cases "bucket idx n v")
    case None
    then have "fst (find_loop idx (sel # sels) found False) = []"
      by (simp add: sel bucket_def split: option.splits)
    with ids_of_absent [OF None] show ?thesis
      by (simp add: sel)
  next
    case (Some seriesIDs)
    then obtain valueMap where vm: "labelIndex idx n = Some valueMap" "valueMap v = Some seriesIDs"
      by (auto simp add: bucket_def split: option.splits)
    from Some have ids: "ids_of idx n v = set seriesIDs"
      by (simp add: ids_of_def)
    show ?thesis
    proof (cases "intersect found seriesIDs = []")
      case True
      then have "fst (find_loop idx (sel # sels) found False) = []"
        by (simp add: sel vm)
      moreover from True have "set found \<inter> set seriesIDs = {}"
        using set_intersect [of found seriesIDs] by simp
      ultimately show ?thesis
        by (auto simp add: sel ids)
    next
      case False
      then have "find_loop idx (sel # sels) found False
          = find_loop (sort_bucket idx n v) sels (intersect found seriesIDs) False"
        by (simp add: sel vm)
      then show ?thesis
        using Cons.IH [of "sort_bucket idx n v" "intersect found seriesIDs"]
        by (auto simp add: sel ids set_intersect ids_of_sort_bucket)
    qed
  qed
qed

lemma find_loop_first:
  "set (fst (find_loop idx (sel # sels) found True))
     = (\<Inter>(n, v)\<in>set (sel # sels). ids_of idx n v)"
proof -
  obtain n v where sel: "sel = (n, v)"
    by (cases sel)
  show ?thesis
  proof (cases "bucket idx n v")
    case None
    then have "fst (find_loop idx (sel # sels) found True) = []"
      by (simp add: sel bucket_def split: option.splits)
    with ids_of_absent [OF None] show ?thesis
      by (simp add: sel)
  next
    case (Some seriesIDs)
    then obtain valueMap where vm: "labelIndex idx n = Some valueMap" "valueMap v = Some seriesIDs"
      by (auto simp add: bucket_def split: option.splits)
    from Some have ids: "ids_of idx n v = set seriesIDs"
      by (simp add: ids_of_def)
    show ?thesis
    proof (cases "seriesIDs = []")
      case True
      then show ?thesis
        by (simp add: sel vm ids)
    next
      case False
      then have "find_loop idx (sel # sels) found True = find_loop idx sels seriesIDs False"
        by (simp add: sel vm)
      then show ?thesis
        using find_loop_rest [of idx sels seriesIDs] by (simp add: sel ids)
    qed
  qed
qed

lemma FindSeries_set:
  "set (fst (FindSeries idx sels)) =
     (if sels = [] then fst ` set (series idx) else (\<Inter>(n, v)\<in>set sels. ids_of idx n v))"
proof (cases sels)
  case Nil
  then show ?thesis
    by (simp add: FindSeries_def)
next
  case (Cons sel rest)
  then show ?thesis
    using find_loop_first [of idx sel rest "[]"] by (simp add: FindSeries_def)
qed

text \<open>
  C5. \<^verbatim>\<open>FindSeries\<close> has AND semantics, whatever the order in which the selectors are
  visited: for an empty selector mapping the result is the set of all series IDs of the
  index; if the label name or the label value of some selector is absent from the
  inverted index the result is empty; otherwise the result is exactly the intersection
  of the buckets of all selectors, and it is the empty slice as soon as that
  intersection is empty.
\<close>

theorem FindSeries_AND:
  "set (fst (FindSeries idx sels)) =
     (if sels = [] then fst ` set (series idx)
      else if \<exists>(n, v)\<in>set sels. bucket idx n v = None then {}
      else (\<Inter>(n, v)\<in>set sels. ids_of idx n v))"
proof -
  have "(\<Inter>(n, v)\<in>set sels. ids_of idx n v) = {}"
    if "\<exists>(n, v)\<in>set sels. bucket idx n v = None"
    using that by (auto dest: ids_of_absent)
  then show ?thesis
    by (simp add: FindSeries_set)
qed

lemma fpA: "calculateFingerprint series_A = 9825474216753441850"
  by code_simp

lemma fpB: "calculateFingerprint series_B = 7043993653901548624"
  by code_simp

lemma fpC: "calculateFingerprint series_C = 6049911815168396356"
  by code_simp

lemma bucket_index_label:
  "bucket (index_label idx n v fp) n' v' =
     (if n' = n \<and> v' = v
      then Some ((case bucket idx n v of None \<Rightarrow> [] | Some ids \<Rightarrow> ids) @ [fp])
      else bucket idx n' v')"
  by (auto simp add: bucket_def index_label_def Let_def split: option.splits)

lemma bucket_series_update: "bucket (idx\<lparr>series := s\<rparr>) n v = bucket idx n v"
  by (simp add: bucket_def)

lemma index_label_series_update:
  "index_label (idx\<lparr>series := s\<rparr>) a b fp = (index_label idx a b fp)\<lparr>series := s\<rparr>"
  by (simp add: index_label_def Let_def)

lemma foldl_index_label_series_update:
  "foldl (\<lambda>i (name, v). index_label i name v fp) (idx\<lparr>series := s\<rparr>) ls
     = (foldl (\<lambda>i (name, v). index_label i name v fp) idx ls)\<lparr>series := s\<rparr>"
  by (induction ls arbitrary: idx) (simp_all add: split_def index_label_series_update)

lemma bucket_AddSeries_new:
  assumes "map_of (series idx) (calculateFingerprint m) = None"
  shows "bucket (snd (AddSeries idx m)) n v =
     bucket (foldl (\<lambda>i (name, v). index_label i name v (calculateFingerprint m))
        (index_label idx ''__name__'' (Name m) (calculateFingerprint m)) (Labels m)) n v"
  using assms
  by (simp add: AddSeries_def Let_def index_label_series_update
      foldl_index_label_series_update bucket_series_update)

lemma fields: "Name series_A = ''http_requests_total''" "Name series_B = ''http_requests_total''"
    "Name series_C = ''http_requests_total''"
    "Labels series_A = [(''method'', ''GET''), (''status'', ''200'')]"
    "Labels series_B = [(''method'', ''POST''), (''status'', ''200'')]"
    "Labels series_C = [(''method'', ''GET''), (''status'', ''404'')]"
    by (simp_all add: series_A_def series_B_def series_C_def)

lemma series_ABC:
  "map fst (series index_A) = [9825474216753441850]"
  "map fst (series index_AB) = [9825474216753441850, 7043993653901548624]"
  "map fst (series index_ABC) = [9825474216753441850, 7043993653901548624, 6049911815168396356]"
proof -
  have a: "map_of (series NewIndex) (calculateFingerprint series_A) = None"
    by (simp add: NewIndex_def)
  from AddSeries_new(2) [OF a] show A: "map fst (series index_A) = [9825474216753441850]"
    by (simp add: index_A_def NewIndex_def fpA)
  then have b: "map_of (series index_A) (calculateFingerprint series_B) = None"
    by (simp add: map_of_eq_None_iff fpB flip: set_map)
  from AddSeries_new(2) [OF b] A
  show AB: "map fst (series index_AB) = [9825474216753441850, 7043993653901548624]"
    by (simp add: index_AB_def fpB)
  then have c: "map_of (series index_AB) (calculateFingerprint series_C) = None"
    by (simp add: map_of_eq_None_iff fpC flip: set_map)
  from AddSeries_new(2) [OF c] AB
  show "map fst (series index_ABC) = [9825474216753441850, 7043993653901548624, 6049911815168396356]"
    by (simp add: index_ABC_def fpC)
qed


lemma buckets_ABC:
  "bucket index_ABC ''method'' ''GET'' = Some [9825474216753441850, 6049911815168396356]"
  "bucket index_ABC ''status'' ''200'' = Some [9825474216753441850, 7043993653901548624]"
  "bucket index_ABC ''method'' ''DELETE'' = None"
proof -
  have a: "map_of (series NewIndex) (calculateFingerprint series_A) = None"
    by (simp add: NewIndex_def)
  have b: "map_of (series index_A) (calculateFingerprint series_B) = None"
    using series_ABC(1) by (simp add: map_of_eq_None_iff fpB flip: set_map)
  have c: "map_of (series index_AB) (calculateFingerprint series_C) = None"
    using series_ABC(2) by (simp add: map_of_eq_None_iff fpC flip: set_map)
  have empty: "bucket NewIndex n v = None" for n v
    by (simp add: bucket_def NewIndex_def)
  have A: "bucket index_A n v =
     bucket (foldl (\<lambda>i (name, v). index_label i name v (calculateFingerprint series_A))
        (index_label NewIndex ''__name__'' (Name series_A) (calculateFingerprint series_A))
        (Labels series_A)) n v" for n v
    unfolding index_A_def by (rule bucket_AddSeries_new [OF a])
  have AB: "bucket index_AB n v =
     bucket (foldl (\<lambda>i (name, v). index_label i name v (calculateFingerprint series_B))
        (index_label index_A ''__name__'' (Name series_B) (calculateFingerprint series_B))
        (Labels series_B)) n v" for n v
    unfolding index_AB_def by (rule bucket_AddSeries_new [OF b])
  have ABC: "bucket index_ABC n v =
     bucket (foldl (\<lambda>i (name, v). index_label i name v (calculateFingerprint series_C))
        (index_label index_AB ''__name__'' (Name series_C) (calculateFingerprint series_C))
        (Labels series_C)) n v" for n v
    unfolding index_ABC_def by (rule bucket_AddSeries_new [OF c])
  show "bucket index_ABC ''method'' ''GET'' = Some [9825474216753441850, 6049911815168396356]"
    "bucket index_ABC ''status'' ''200'' = Some [9825474216753441850, 7043993653901548624]"
    "bucket index_ABC ''method'' ''DELETE'' = None"
    by (simp_all add: A AB ABC bucket_index_label fields fpA fpB fpC empty)
qed


text \<open>
  The three queries of \<^verbatim>\<open>TestIndexFindSeries\<close> on the index of the series
  \<open>A{method=GET,status=200}\<close>, \<open>B{method=POST,status=200}\<close> and \<open>C{method=GET,status=404}\<close>,
  whose IDs are 9825474216753441850, 7043993653901548624 and 6049911815168396356, and
  the query with no selector.
\<close>

theorem FindSeries_AND_witness:
  "set (fst (FindSeries index_ABC [(''method'', ''GET'')]))
     = {9825474216753441850, 6049911815168396356}
   \<and> set (fst (FindSeries index_ABC [(''method'', ''GET''), (''status'', ''200'')]))
     = {9825474216753441850}
   \<and> set (fst (FindSeries index_ABC [(''method'', ''DELETE'')])) = {}
   \<and> set (fst (FindSeries index_ABC []))
     = {9825474216753441850, 7043993653901548624, 6049911815168396356}"
proof -
  have "fst ` set (series index_ABC)
      = {9825474216753441850, 7043993653901548624, 6049911815168396356}"
    using series_ABC(3) [THEN arg_cong, of set] by simp
  with FindSeries_AND [of index_ABC "[(''method'', ''GET'')]"]
    FindSeries_AND [of index_ABC "[(''method'', ''GET''), (''status'', ''200'')]"]
    FindSeries_AND [of index_ABC "[(''method'', ''DELETE'')]"]
    FindSeries_AND [of index_ABC "[]"]
  show ?thesis
    by (simp add: buckets_ABC ids_of_def)
qed

section \<open>Properties of the query cache\<close>

lemma remove1_last_distinct:
  "distinct xs \<Longrightarrow> xs \<noteq> [] \<Longrightarrow> remove1 (last xs) xs = butlast xs"
proof (induction xs)
  case Nil
  then show ?case by simp
next
  case (Cons x xs)
  then show ?case
    by (cases xs) auto
qed

lemma cache_ok_finite: "cache_ok qc \<Longrightarrow> finite (dom (cache qc))"
  by (metis cache_ok_def List.finite_set)

lemma Size_length: "cache_ok qc \<Longrightarrow> Size qc = int (length (lru qc))"
  by (metis Size_def cache_ok_def distinct_card)

lemma cache_ok_NewQueryCache: "cache_ok (NewQueryCache cap t)"
  by (simp add: cache_ok_def NewQueryCache_def)

lemma Put_existing:
  assumes "cache_ok qc" and "cache qc (QueryCache_generateKey digest req) = Some entry"
  shows "Put digest now qc req res =
     qc\<lparr>cache := (cache qc)(QueryCache_generateKey digest req \<mapsto>
            \<lparr> key = QueryCache_generateKey digest req, result = res, timestamp = now \<rparr>),
        lru := QueryCache_generateKey digest req # remove1 (QueryCache_generateKey digest req) (lru qc)\<rparr>"
proof -
  from assms have "QueryCache_generateKey digest req \<in> set (lru qc)" and "key entry = QueryCache_generateKey digest req"
    by (auto simp add: cache_ok_def)
  then have "entry\<lparr>result := res, timestamp := now\<rparr>
      = \<lparr> key = QueryCache_generateKey digest req, result = res, timestamp = now \<rparr>"
    by simp
  with assms(2) \<open>QueryCache_generateKey digest req \<in> set (lru qc)\<close> show ?thesis
    by (simp add: Put_def MoveToFront_def Let_def)
qed

lemma cache_ok_insert:
  assumes "cache_ok qc" and "cache qc k = None"
  shows "cache_ok (qc\<lparr>lru := k # lru qc,
      cache := (cache qc)(k \<mapsto> \<lparr> key = k, result = res, timestamp = now \<rparr>)\<rparr>)"
proof -
  from assms have "k \<notin> set (lru qc)"
    by (auto simp add: cache_ok_def)
  with assms(1) show ?thesis
    by (auto simp add: cache_ok_def)
qed

lemma cache_ok_refresh:
  assumes "cache_ok qc" and "cache qc k = Some entry"
  shows "cache_ok (qc\<lparr>cache := (cache qc)(k \<mapsto> \<lparr> key = k, result = res, timestamp = now \<rparr>),
      lru := k # remove1 k (lru qc)\<rparr>)"
proof -
  from assms have "k \<in> set (lru qc)" and "distinct (lru qc)"
    by (auto simp add: cache_ok_def)
  then have "set (k # remove1 k (lru qc)) = set (lru qc)" and "distinct (k # remove1 k (lru qc))"
    by auto
  with assms show ?thesis
    by (auto simp add: cache_ok_def)
qed

lemma cache_ok_removeLocked:
  assumes "cache_ok qc"
  shows "cache_ok (removeLocked qc k)"
proof (cases "cache qc k")
  case None
  with assms show ?thesis
    by (simp add: removeLocked_def)
next
  case (Some entry)
  from assms have "distinct (lru qc)" and "set (lru qc) = dom (cache qc)"
    by (simp_all add: cache_ok_def)
  then have "set (remove1 k (lru qc)) = dom ((cache qc)(k := None))"
    by auto
  with Some assms show ?thesis
    by (auto simp add: removeLocked_def cache_ok_def)
qed

lemma Put_new:
  assumes "cache_ok qc" and "cache qc (QueryCache_generateKey digest req) = None"
  shows "Put digest now qc req res =
     (if int (length (lru qc)) + 1 \<le> capacity qc
      then qc\<lparr>lru := QueryCache_generateKey digest req # lru qc,
              cache := (cache qc)(QueryCache_generateKey digest req \<mapsto>
                \<lparr> key = QueryCache_generateKey digest req, result = res, timestamp = now \<rparr>)\<rparr>
      else qc\<lparr>lru := butlast (QueryCache_generateKey digest req # lru qc),
              cache := ((cache qc)(QueryCache_generateKey digest req \<mapsto>
                \<lparr> key = QueryCache_generateKey digest req, result = res, timestamp = now \<rparr>))
                  (last (QueryCache_generateKey digest req # lru qc) := None)\<rparr>)"
proof -
  let ?k = "QueryCache_generateKey digest req"
  let ?qc1 = "qc\<lparr>lru := ?k # lru qc,
      cache := (cache qc)(?k \<mapsto> \<lparr> key = ?k, result = res, timestamp = now \<rparr>)\<rparr>"
  have ok1: "cache_ok ?qc1"
    by (rule cache_ok_insert [OF assms])
  then have d: "distinct (lru ?qc1)" and s: "set (lru ?qc1) = dom (cache ?qc1)"
    unfolding cache_ok_def by blast+
  have "last (lru ?qc1) \<in> set (lru ?qc1)"
    by (rule last_in_set) simp
  with s obtain victim where "cache ?qc1 (last (lru ?qc1)) = Some victim"
    by blast
  then have "removeLocked ?qc1 (last (lru ?qc1)) =
      ?qc1\<lparr>lru := remove1 (last (lru ?qc1)) (lru ?qc1),
            cache := (cache ?qc1)(last (lru ?qc1) := None)\<rparr>"
    by (simp add: removeLocked_def)
  moreover have "remove1 (last (lru ?qc1)) (lru ?qc1) = butlast (lru ?qc1)"
    using d by (intro remove1_last_distinct) simp_all
  ultimately have "removeLocked ?qc1 (last (lru ?qc1)) =
      qc\<lparr>lru := butlast (?k # lru qc),
         cache := ((cache qc)(?k \<mapsto> \<lparr> key = ?k, result = res, timestamp = now \<rparr>))
                    (last (?k # lru qc) := None)\<rparr>"
    by simp
  with assms(2) show ?thesis
    by (simp add: Put_def Let_def)
qed


lemma Size_update_known:
  "cache_ok qc \<Longrightarrow> cache qc k = Some entry \<Longrightarrow>
     Size (qc\<lparr>cache := (cache qc)(k \<mapsto> e), lru := l\<rparr>) = Size qc"
  by (simp add: Size_def insert_absorb domI)

lemma Get_found:
  assumes "cache qc (QueryCache_generateKey digest req) = Some entry" and "now - timestamp entry \<le> ttl qc"
  shows "fst (Get digest now qc req) = Some (result entry)"
  using assms by (simp add: Get_def Let_def)

lemma Put_cache_ok:
  assumes "cache_ok qc"
  shows "cache_ok (Put digest now qc req res)"
proof (cases "cache qc (QueryCache_generateKey digest req)")
  case (Some entry)
  show ?thesis
    unfolding Put_existing [OF assms Some] by (rule cache_ok_refresh [OF assms Some])
next
  case None
  let ?k = "QueryCache_generateKey digest req"
  let ?qc1 = "qc\<lparr>lru := ?k # lru qc,
      cache := (cache qc)(?k \<mapsto> \<lparr> key = ?k, result = res, timestamp = now \<rparr>)\<rparr>"
  have ok1: "cache_ok ?qc1"
    by (rule cache_ok_insert [OF assms None])
  show ?thesis
  proof (cases "int (length (lru qc)) + 1 \<le> capacity qc")
    case True
    with ok1 show ?thesis
      unfolding Put_new [OF assms None] by simp
  next
    case False
    have "last (?k # lru qc) \<in> set (lru ?qc1)"
      using last_in_set [of "?k # lru qc"] by simp
    with ok1 obtain victim where "cache ?qc1 (last (?k # lru qc)) = Some victim"
      unfolding cache_ok_def by blast
    then have "removeLocked ?qc1 (last (?k # lru qc)) =
        ?qc1\<lparr>lru := remove1 (last (?k # lru qc)) (lru ?qc1),
              cache := (cache ?qc1)(last (?k # lru qc) := None)\<rparr>"
      by (simp add: removeLocked_def)
    moreover have "distinct (?k # lru qc)"
      using ok1 unfolding cache_ok_def by simp
    then have "remove1 (last (?k # lru qc)) (?k # lru qc) = butlast (?k # lru qc)"
      by (intro remove1_last_distinct) simp_all
    ultimately have "removeLocked ?qc1 (last (?k # lru qc)) = Put digest now qc req res"
      using False unfolding Put_new [OF assms None] by simp
    with cache_ok_removeLocked [OF ok1, of "last (?k # lru qc)"] show ?thesis
      by simp
  qed
qed

lemma Put_known:
  assumes "cache_ok qc"
  shows "\<forall>entry. cache qc (QueryCache_generateKey digest req) = Some entry \<longrightarrow>
          cache (Put digest now qc req res) (QueryCache_generateKey digest req)
            = Some \<lparr> key = QueryCache_generateKey digest req, result = res, timestamp = now \<rparr>
        \<and> lru (Put digest now qc req res)
            = QueryCache_generateKey digest req # remove1 (QueryCache_generateKey digest req) (lru qc)
        \<and> (\<forall>k'. k' \<noteq> QueryCache_generateKey digest req \<longrightarrow>
              cache (Put digest now qc req res) k' = cache qc k')
        \<and> Size (Put digest now qc req res) = Size qc"
proof (intro allI impI)
  fix entry
  assume known: "cache qc (QueryCache_generateKey digest req) = Some entry"
  note put = Put_existing [OF assms known, of now res]
  have "Size (Put digest now qc req res) = Size qc"
    unfolding put by (rule Size_update_known [OF assms known])
  then show "cache (Put digest now qc req res) (QueryCache_generateKey digest req)
            = Some \<lparr> key = QueryCache_generateKey digest req, result = res, timestamp = now \<rparr>
        \<and> lru (Put digest now qc req res)
            = QueryCache_generateKey digest req # remove1 (QueryCache_generateKey digest req) (lru qc)
        \<and> (\<forall>k'. k' \<noteq> QueryCache_generateKey digest req \<longrightarrow>
              cache (Put digest now qc req res) k' = cache qc k')
        \<and> Size (Put digest now qc req res) = Size qc"
    by (simp add: put)
qed

lemma Put_fits:
  assumes "cache_ok qc"
  shows "cache qc (QueryCache_generateKey digest req) = None \<and> Size qc + 1 \<le> capacity qc \<longrightarrow>
          cache (Put digest now qc req res) (QueryCache_generateKey digest req)
            = Some \<lparr> key = QueryCache_generateKey digest req, result = res, timestamp = now \<rparr>
        \<and> lru (Put digest now qc req res) = QueryCache_generateKey digest req # lru qc
        \<and> (\<forall>k'. k' \<noteq> QueryCache_generateKey digest req \<longrightarrow>
              cache (Put digest now qc req res) k' = cache qc k')
        \<and> Size (Put digest now qc req res) = Size qc + 1"
proof (intro impI, elim conjE)
  let ?k = "QueryCache_generateKey digest req"
  let ?qc1 = "qc\<lparr>lru := ?k # lru qc,
      cache := (cache qc)(?k \<mapsto> \<lparr> key = ?k, result = res, timestamp = now \<rparr>)\<rparr>"
  assume new: "cache qc ?k = None" and fits: "Size qc + 1 \<le> capacity qc"
  have eq: "Put digest now qc req res = ?qc1"
    using Put_new [OF assms new, of now res] fits Size_length [OF assms] by simp
  have "Size ?qc1 = Size qc + 1"
    using Size_length [OF cache_ok_insert [OF assms new, of res now]] Size_length [OF assms]
    by simp
  then show "cache (Put digest now qc req res) ?k
            = Some \<lparr> key = ?k, result = res, timestamp = now \<rparr>
        \<and> lru (Put digest now qc req res) = ?k # lru qc
        \<and> (\<forall>k'. k' \<noteq> ?k \<longrightarrow> cache (Put digest now qc req res) k' = cache qc k')
        \<and> Size (Put digest now qc req res) = Size qc + 1"
    unfolding eq by simp
qed

lemma Put_evicts:
  assumes "cache_ok qc"
  shows "cache qc (QueryCache_generateKey digest req) = None \<and> capacity qc < Size qc + 1 \<longrightarrow>
          lru (Put digest now qc req res) = butlast (QueryCache_generateKey digest req # lru qc)
        \<and> cache (Put digest now qc req res) (last (QueryCache_generateKey digest req # lru qc)) = None
        \<and> (\<forall>k'. k' \<noteq> last (QueryCache_generateKey digest req # lru qc) \<longrightarrow>
              cache (Put digest now qc req res) k'
                = ((cache qc)(QueryCache_generateKey digest req \<mapsto>
                    \<lparr> key = QueryCache_generateKey digest req, result = res, timestamp = now \<rparr>)) k')
        \<and> (\<forall>req' entry now'.
              QueryCache_generateKey digest req' \<noteq> last (QueryCache_generateKey digest req # lru qc)
              \<and> ((cache qc)(QueryCache_generateKey digest req \<mapsto>
                    \<lparr> key = QueryCache_generateKey digest req, result = res, timestamp = now \<rparr>))
                   (QueryCache_generateKey digest req') = Some entry
              \<and> now' - timestamp entry \<le> ttl qc \<longrightarrow>
              fst (Get digest now' (Put digest now qc req res) req') = Some (result entry))
        \<and> Size (Put digest now qc req res) = Size qc"
proof (intro impI, elim conjE)
  let ?k = "QueryCache_generateKey digest req"
  let ?new = "\<lparr> key = ?k, result = res, timestamp = now \<rparr>"
  let ?victim = "last (?k # lru qc)"
  let ?qc' = "Put digest now qc req res"
  assume new: "cache qc ?k = None" and full: "capacity qc < Size qc + 1"
  have eq: "?qc' = qc\<lparr>lru := butlast (?k # lru qc),
      cache := ((cache qc)(?k \<mapsto> ?new))(?victim := None)\<rparr>"
    using Put_new [OF assms new, of now res] full Size_length [OF assms] by simp
  have size: "Size ?qc' = Size qc"
    using Size_length [OF Put_cache_ok [OF assms, of digest now req res]] Size_length [OF assms]
    by (simp add: eq)
  have get: "\<forall>req' entry now'.
      QueryCache_generateKey digest req' \<noteq> ?victim
      \<and> ((cache qc)(?k \<mapsto> ?new)) (QueryCache_generateKey digest req') = Some entry
      \<and> now' - timestamp entry \<le> ttl qc \<longrightarrow>
      fst (Get digest now' ?qc' req') = Some (result entry)"
  proof (intro allI impI, elim conjE)
    fix req' entry now'
    assume other: "QueryCache_generateKey digest req' \<noteq> ?victim"
      and held: "((cache qc)(?k \<mapsto> ?new)) (QueryCache_generateKey digest req') = Some entry"
      and fresh: "now' - timestamp entry \<le> ttl qc"
    show "fst (Get digest now' ?qc' req') = Some (result entry)"
    proof (rule Get_found)
      show "cache ?qc' (QueryCache_generateKey digest req') = Some entry"
        using other held unfolding eq by simp
      show "now' - timestamp entry \<le> ttl ?qc'"
        using fresh unfolding eq by simp
    qed
  qed
  have "lru ?qc' = butlast (?k # lru qc)"
    and "cache ?qc' ?victim = None"
    and "\<forall>k'. k' \<noteq> ?victim \<longrightarrow> cache ?qc' k' = ((cache qc)(?k \<mapsto> ?new)) k'"
    unfolding eq by simp_all
  with get size
  show "lru ?qc' = butlast (?k # lru qc)
        \<and> cache ?qc' ?victim = None
        \<and> (\<forall>k'. k' \<noteq> ?victim \<longrightarrow> cache ?qc' k' = ((cache qc)(?k \<mapsto> ?new)) k')
        \<and> (\<forall>req' entry now'.
              QueryCache_generateKey digest req' \<noteq> ?victim
              \<and> ((cache qc)(?k \<mapsto> ?new)) (QueryCache_generateKey digest req') = Some entry
              \<and> now' - timestamp entry \<le> ttl qc \<longrightarrow>
              fst (Get digest now' ?qc' req') = Some (result entry))
        \<and> Size ?qc' = Size qc"
    by (intro conjI)
qed

text \<open>
  C7. \<^verbatim>\<open>Put\<close> on a well-formed cache gives a well-formed cache (in particular no key
  occurs twice in the recency list), and:
  \<^item> if an entry with the key exists, its result and timestamp are overwritten, the key
    moves to the front of the recency list, every other entry is unchanged and the size
    is unchanged;
  \<^item> otherwise a new entry is put at the front; if the count then stays within the
    capacity, nothing else changes and the size grows by one;
  \<^item> if the count then exceeds the capacity, exactly the entry at the back of the
    recency list is removed: the size is what it was before the call, every other entry
    is still in the map as it was, and \<^verbatim>\<open>Get\<close> still returns it as long as it has not
    expired.
\<close>

theorem Put_refreshes_or_inserts:
  assumes "cache_ok qc"
  shows "cache_ok (Put digest now qc req res)
    \<and> (\<forall>entry. cache qc (QueryCache_generateKey digest req) = Some entry \<longrightarrow>
          cache (Put digest now qc req res) (QueryCache_generateKey digest req)
            = Some \<lparr> key = QueryCache_generateKey digest req, result = res, timestamp = now \<rparr>
        \<and> lru (Put digest now qc req res)
            = QueryCache_generateKey digest req # remove1 (QueryCache_generateKey digest req) (lru qc)
        \<and> (\<forall>k'. k' \<noteq> QueryCache_generateKey digest req \<longrightarrow>
              cache (Put digest now qc req res) k' = cache qc k')
        \<and> Size (Put digest now qc req res) = Size qc)
    \<and> (cache qc (QueryCache_generateKey digest req) = None \<and> Size qc + 1 \<le> capacity qc \<longrightarrow>
          cache (Put digest now qc req res) (QueryCache_generateKey digest req)
            = Some \<lparr> key = QueryCache_generateKey digest req, result = res, timestamp = now \<rparr>
        \<and> lru (Put digest now qc req res) = QueryCache_generateKey digest req # lru qc
        \<and> (\<forall>k'. k' \<noteq> QueryCache_generateKey digest req \<longrightarrow>
              cache (Put digest now qc req res) k' = cache qc k')
        \<and> Size (Put digest now qc req res) = Size qc + 1)
    \<and> (cache qc (QueryCache_generateKey digest req) = None \<and> capacity qc < Size qc + 1 \<longrightarrow>
          lru (Put digest now qc req res) = butlast (QueryCache_generateKey digest req # lru qc)
        \<and> cache (Put digest now qc req res) (last (QueryCache_generateKey digest req # lru qc)) = None
        \<and> (\<forall>k'. k' \<noteq> last (QueryCache_generateKey digest req # lru qc) \<longrightarrow>
              cache (Put digest now qc req res) k'
                = ((cache qc)(QueryCache_generateKey digest req \<mapsto>
                    \<lparr> key = QueryCache_generateKey digest req, result = res, timestamp = now \<rparr>)) k')
        \<and> (\<forall>req' entry now'.
              QueryCache_generateKey digest req' \<noteq> last (QueryCache_generateKey digest req # lru qc)
              \<and> ((cache qc)(QueryCache_generateKey digest req \<mapsto>
                    \<lparr> key = QueryCache_generateKey digest req, result = res, timestamp = now \<rparr>))
                   (QueryCache_generateKey digest req') = Some entry
              \<and> now' - timestamp entry \<le> ttl qc \<longrightarrow>
              fst (Get digest now' (Put digest now qc req res) req') = Some (result entry))
        \<and> Size (Put digest now qc req res) = Size qc)"
  by (intro conjI Put_cache_ok [OF assms] Put_known [OF assms] Put_fits [OF assms]
      Put_evicts [OF assms])


text \<open>
  The fourth insertion of \<^verbatim>\<open>TestQueryCacheLRUEviction\<close>: \<open>metric_3\<close> goes into the full
  cache at time 4. The entry of \<open>metric_0\<close>, the least recently used, is gone, the size
  is still 3, and \<open>metric_1\<close> is still returned at time 5.
\<close>

theorem Put_refreshes_or_inserts_witness:
  "cache_ok full_cache
   \<and> lru full_cache = [''test/metric_2'', ''test/metric_1'', ''test/metric_0'']
   \<and> cache full_cache (QueryCache_generateKey plain_digest (test_request ''metric_3'')) = None
   \<and> capacity full_cache < Size full_cache + 1
   \<and> lru (Put plain_digest 4 full_cache (test_request ''metric_3'') empty_result)
       = [''test/metric_3'', ''test/metric_2'', ''test/metric_1'']
   \<and> cache (Put plain_digest 4 full_cache (test_request ''metric_3'') empty_result)
         ''test/metric_0'' = None
   \<and> fst (Get plain_digest 5
         (Put plain_digest 4 full_cache (test_request ''metric_3'') empty_result)
         (test_request ''metric_1'')) = Some empty_result
   \<and> Size (Put plain_digest 4 full_cache (test_request ''metric_3'') empty_result) = 3"
proof -
  have keys: "QueryCache_generateKey plain_digest (test_request q) = ''test/'' @ q" for q
    by (simp add: QueryCache_generateKey_def plain_digest_def test_request_def)
  have ok: "cache_ok full_cache"
    unfolding full_cache_def by (intro Put_cache_ok cache_ok_NewQueryCache)
  have full: "full_cache =
      \<lparr> capacity = 3, ttl = 60000000000,
        cache = [''test/metric_0'' \<mapsto> \<lparr> key = ''test/metric_0'', result = empty_result, timestamp = 1 \<rparr>,
                 ''test/metric_1'' \<mapsto> \<lparr> key = ''test/metric_1'', result = empty_result, timestamp = 2 \<rparr>,
                 ''test/metric_2'' \<mapsto> \<lparr> key = ''test/metric_2'', result = empty_result, timestamp = 3 \<rparr>],
        lru = [''test/metric_2'', ''test/metric_1'', ''test/metric_0''] \<rparr>"
    by (simp add: full_cache_def Put_def keys NewQueryCache_def Let_def)
  have size: "Size full_cache = 3"
    using Size_length [OF ok] by (simp add: full)
  have new: "cache full_cache (QueryCache_generateKey plain_digest (test_request ''metric_3'')) = None"
    by (simp add: full keys)
  have over: "capacity full_cache < Size full_cache + 1"
    by (simp add: size) (simp add: full)
  note evict = Put_refreshes_or_inserts [OF ok, of plain_digest 4 "test_request ''metric_3''" empty_result,
      THEN conjunct2, THEN conjunct2, THEN conjunct2, rule_format, OF conjI, OF new over]
  have l: "lru (Put plain_digest 4 full_cache (test_request ''metric_3'') empty_result)
       = [''test/metric_3'', ''test/metric_2'', ''test/metric_1'']"
    using evict [THEN conjunct1] by (simp add: keys full)
  have gone: "cache (Put plain_digest 4 full_cache (test_request ''metric_3'') empty_result)
         ''test/metric_0'' = None"
    using evict [THEN conjunct2, THEN conjunct1] by (simp add: keys full)
  have kept: "fst (Get plain_digest 5
         (Put plain_digest 4 full_cache (test_request ''metric_3'') empty_result)
         (test_request ''metric_1'')) = Some empty_result"
    using evict [THEN conjunct2, THEN conjunct2, THEN conjunct2, THEN conjunct1, rule_format,
        of "test_request ''metric_1''"
           "\<lparr> key = ''test/metric_1'', result = empty_result, timestamp = 2 \<rparr>" 5]
    by (simp add: keys full)
  have "Size (Put plain_digest 4 full_cache (test_request ''metric_3'') empty_result) = 3"
    using evict [THEN conjunct2, THEN conjunct2, THEN conjunct2, THEN conjunct2] size by simp
  with ok new over l gone kept show ?thesis
    by (simp add: full)
qed

section \<open>Properties of the batch writer\<close>

lemma BatchWriter_Write_append_failed:
  assumes "wal bw = Some w" and "WAL_Append io now w req = (Some err, w')"
  shows "BatchWriter_Write io writeDirect now bw req
    = (Some (Wrapped ''WAL append failed'' err), bw\<lparr>wal := Some w'\<rparr>)"
  using assms by (simp add: BatchWriter_Write_def)

lemma BatchWriter_Write_appended:
  assumes "wal bw = Some w" and "WAL_Append io now w req = (None, w')"
  shows "BatchWriter_Write io writeDirect now bw req
    = buffer_request writeDirect (bw\<lparr>wal := Some w'\<rparr>) req"
  using assms by (simp add: BatchWriter_Write_def)

lemma BatchWriter_Write_no_wal:
  assumes "wal bw = None"
  shows "BatchWriter_Write io writeDirect now bw req = buffer_request writeDirect bw req"
  using assms by (simp add: BatchWriter_Write_def)

lemma buffer_request_room:
  assumes "int (length (buffer bw)) + 1 < bufferSize bw"
  shows "buffer_request writeDirect bw req = (None, bw\<lparr>buffer := buffer bw @ [req]\<rparr>)"
  using assms by (simp add: buffer_request_def Let_def)

text \<open>
  C8. In \<^verbatim>\<open>BatchWriter.Write\<close> with a WAL, a failing \<^verbatim>\<open>WAL.Append\<close> aborts the request:
  the call returns the error (wrapped as \<^verbatim>\<open>WAL append failed\<close>), and neither the buffer
  nor the storage has changed. With a WAL, the request reaches the buffer only after a
  successful append; only without a WAL (a \<^verbatim>\<open>nil\<close> pointer) is it buffered with no
  append at all, and then, while the buffer has room, the call just appends the request
  to the buffer.
\<close>

theorem BatchWriter_Write_logs_first:
  "(\<forall>w err w'. wal bw = Some w \<and> WAL_Append io now w req = (Some err, w') \<longrightarrow>
        fst (BatchWriter_Write io writeDirect now bw req)
          = Some (Wrapped ''WAL append failed'' err)
      \<and> buffer (snd (BatchWriter_Write io writeDirect now bw req)) = buffer bw
      \<and> storage (snd (BatchWriter_Write io writeDirect now bw req)) = storage bw)
   \<and> (\<forall>w w'. wal bw = Some w \<and> WAL_Append io now w req = (None, w') \<longrightarrow>
        BatchWriter_Write io writeDirect now bw req
          = buffer_request writeDirect (bw\<lparr>wal := Some w'\<rparr>) req)
   \<and> (\<forall>w. wal bw = Some w
          \<and> buffer (snd (BatchWriter_Write io writeDirect now bw req)) \<noteq> buffer bw \<longrightarrow>
        fst (WAL_Append io now w req) = None)
   \<and> (wal bw = None \<longrightarrow>
        BatchWriter_Write io writeDirect now bw req = buffer_request writeDirect bw req
      \<and> wal (snd (BatchWriter_Write io writeDirect now bw req)) = None)
   \<and> (wal bw = None \<and> int (length (buffer bw)) + 1 < bufferSize bw \<longrightarrow>
        BatchWriter_Write io writeDirect now bw req = (None, bw\<lparr>buffer := buffer bw @ [req]\<rparr>))"
proof (intro conjI allI impI; (elim conjE)?)
  fix w err w'
  assume w: "wal bw = Some w" and failed: "WAL_Append io now w req = (Some err, w')"
  note r = BatchWriter_Write_append_failed [OF w failed, of writeDirect]
  show "fst (BatchWriter_Write io writeDirect now bw req) = Some (Wrapped ''WAL append failed'' err)"
    and "buffer (snd (BatchWriter_Write io writeDirect now bw req)) = buffer bw"
    and "storage (snd (BatchWriter_Write io writeDirect now bw req)) = storage bw"
    unfolding r by simp_all
next
  fix w w'
  assume "wal bw = Some w" and "WAL_Append io now w req = (None, w')"
  then show "BatchWriter_Write io writeDirect now bw req
      = buffer_request writeDirect (bw\<lparr>wal := Some w'\<rparr>) req"
    by (rule BatchWriter_Write_appended)
next
  fix w
  assume w: "wal bw = Some w"
    and changed: "buffer (snd (BatchWriter_Write io writeDirect now bw req)) \<noteq> buffer bw"
  show "fst (WAL_Append io now w req) = None"
  proof (cases "WAL_Append io now w req")
    case (Pair outcome w')
    show ?thesis
    proof (cases outcome)
      case None
      with Pair show ?thesis by simp
    next
      case (Some err)
      with Pair changed BatchWriter_Write_append_failed [OF w, of io now req err w' writeDirect]
      show ?thesis by simp
    qed
  qed
next
  assume none: "wal bw = None"
  show "BatchWriter_Write io writeDirect now bw req = buffer_request writeDirect bw req"
    by (rule BatchWriter_Write_no_wal [OF none])
  have "wal (snd (buffer_request writeDirect bw req)) = wal bw"
    by (simp add: buffer_request_def flushLocked_def Let_def split: prod.splits option.splits)
  with none show "wal (snd (BatchWriter_Write io writeDirect now bw req)) = None"
    by (simp add: BatchWriter_Write_no_wal [OF none])
next
  assume none: "wal bw = None" and room: "int (length (buffer bw)) + 1 < bufferSize bw"
  show "BatchWriter_Write io writeDirect now bw req = (None, bw\<lparr>buffer := buffer bw @ [req]\<rparr>)"
    by (simp add: BatchWriter_Write_no_wal [OF none] buffer_request_room [OF room])
qed

text \<open>
  A batch writer whose WAL has no room left refuses the request of \<^verbatim>\<open>TestWAL\<close> and keeps
  its buffer empty; the same writer without a WAL buffers it.
\<close>

theorem BatchWriter_Write_logs_first_witness:
  "WAL_Append bounded_io \<lparr> unix_sec = 1700000001, nanosecond = 0 \<rparr>
       \<lparr> path = ''data/wal'', writer = ([], 0) \<rparr> test_write
     = (Some (Wrapped ''failed to write to WAL'' (External ''no space left on device'')),
        \<lparr> path = ''data/wal'', writer = ([], 0) \<rparr>)
   \<and> BatchWriter_Write bounded_io collect \<lparr> unix_sec = 1700000001, nanosecond = 0 \<rparr>
       \<lparr> storage = [], wal = Some \<lparr> path = ''data/wal'', writer = ([], 0) \<rparr>,
         buffer = [], bufferSize = 1000 \<rparr> test_write
     = (Some (Wrapped ''WAL append failed''
               (Wrapped ''failed to write to WAL'' (External ''no space left on device''))),
        \<lparr> storage = [], wal = Some \<lparr> path = ''data/wal'', writer = ([], 0) \<rparr>,
          buffer = [], bufferSize = 1000 \<rparr>)
   \<and> BatchWriter_Write bounded_io collect \<lparr> unix_sec = 1700000001, nanosecond = 0 \<rparr>
       \<lparr> storage = [], wal = None, buffer = [], bufferSize = 1000 \<rparr> test_write
     = (None, \<lparr> storage = [], wal = None, buffer = [test_write], bufferSize = 1000 \<rparr>)"
proof -
  let ?now = "\<lparr> unix_sec = 1700000001, nanosecond = 0 \<rparr>"
  let ?w = "\<lparr> path = ''data/wal'', writer = ([] :: byte list, 0 :: nat) \<rparr>"
  let ?bw = "\<lparr> storage = [], wal = Some ?w, buffer = [], bufferSize = 1000 \<rparr>"
  let ?plain = "\<lparr> storage = [], wal = None :: (byte list \<times> nat) WAL option,
                 buffer = [], bufferSize = 1000 \<rparr>"
  have failed: "WAL_Append bounded_io ?now ?w test_write
      = (Some (Wrapped ''failed to write to WAL'' (External ''no space left on device'')), ?w)"
    by (simp add: WAL_Append_def bounded_io_def test_write_def bytes_of_def)
  note all = BatchWriter_Write_logs_first [of ?bw bounded_io ?now test_write collect]
  note none = BatchWriter_Write_logs_first [of ?plain bounded_io ?now test_write collect]
  have r: "fst (BatchWriter_Write bounded_io collect ?now ?bw test_write)
        = Some (Wrapped ''WAL append failed''
                 (Wrapped ''failed to write to WAL'' (External ''no space left on device'')))"
    "buffer (snd (BatchWriter_Write bounded_io collect ?now ?bw test_write)) = []"
    using all [THEN conjunct1, rule_format, of ?w _ ?w] failed by simp_all
  have "BatchWriter_Write bounded_io collect ?now ?bw test_write
      = (Some (Wrapped ''WAL append failed''
               (Wrapped ''failed to write to WAL'' (External ''no space left on device''))), ?bw)"
    using r by (simp add: BatchWriter_Write_def failed)
  moreover have "BatchWriter_Write bounded_io collect ?now ?plain test_write
      = (None, \<lparr> storage = [], wal = None, buffer = [test_write], bufferSize = 1000 \<rparr>)"
    using none [THEN conjunct2, THEN conjunct2, THEN conjunct2, THEN conjunct2] by simp
  ultimately show ?thesis
    using failed by simp
qed

section \<open>Properties of the storage engine\<close>

subsection \<open>The index under \<^verbatim>\<open>Write\<close>\<close>

lemma index_writeBlock:
  "index (snd (writeBlock kv s tenantID seriesID blockTime samples)) = index s"
  by (simp add: writeBlock_def Let_def split: sum.splits)

lemma index_write_blocks:
  "index (snd (write_blocks kv s tenantID seriesID blocks)) = index s"
proof (induction blocks arbitrary: s)
  case Nil
  show ?case by simp
next
  case (Cons block blocks)
  obtain blockTime samples where block: "block = (blockTime, samples)"
    by (cases block)
  obtain outcome s' where w: "writeBlock kv s tenantID seriesID blockTime samples = (outcome, s')"
    by (cases "writeBlock kv s tenantID seriesID blockTime samples")
  have s': "index s' = index s"
    using index_writeBlock [of kv s tenantID seriesID blockTime samples] by (simp add: w)
  show ?case
  proof (cases outcome)
    case None
    with Cons.IH [of s'] s' show ?thesis
      by (simp add: block w)
  next
    case (Some err)
    with s' show ?thesis
      by (simp add: block w)
  qed
qed

lemma Compress_succeeds:
  "\<exists>d. CompressTimestamps c ts = Inr d" "\<exists>d. CompressValues c vs = Inr d"
  by (simp_all add: CompressTimestamps_def CompressValues_def split: list.splits)

lemma writeBlock_accepted:
  assumes "\<forall>d k payload. \<exists>d'. txn_Set kv d k payload = Inr d'"
  shows "fst (writeBlock kv s tenantID seriesID blockTime samples) = None"
proof -
  obtain cts where cts: "CompressTimestamps (compressor s)
      (map (\<lambda>sample. Unix (Sample.Timestamp sample)) samples) = Inr cts"
    using Compress_succeeds(1) by blast
  obtain cvs where cvs: "CompressValues (compressor s) (map Value samples) = Inr cvs"
    using Compress_succeeds(2) by blast
  obtain d' where "txn_Set kv (db s) (generateKey tenantID seriesID blockTime)
      \<lparr> Count = int (length samples), CompressedTS = cts, CompressedValues = cvs \<rparr> = Inr d'"
    using assms by blast
  then show ?thesis
    by (simp add: writeBlock_def cts cvs)
qed

lemma write_blocks_accepted:
  assumes "\<forall>d k payload. \<exists>d'. txn_Set kv d k payload = Inr d'"
  shows "fst (write_blocks kv s tenantID seriesID blocks) = None"
proof (induction blocks arbitrary: s)
  case Nil
  show ?case by simp
next
  case (Cons block blocks)
  obtain blockTime samples where block: "block = (blockTime, samples)"
    by (cases block)
  obtain outcome s' where w: "writeBlock kv s tenantID seriesID blockTime samples = (outcome, s')"
    by (cases "writeBlock kv s tenantID seriesID blockTime samples")
  with writeBlock_accepted [OF assms, of s tenantID seriesID blockTime samples]
  have "outcome = None"
    by simp
  with Cons.IH [of s'] show ?case
    by (simp add: block w)
qed

lemma write_series_accepted:
  assumes "\<forall>d k payload. \<exists>d'. txn_Set kv d k payload = Inr d'"
  shows "fst (write_series kv s tenantID sers) = None
    \<and> index (snd (write_series kv s tenantID sers))
        = foldl (\<lambda>idx ser. snd (AddSeries idx (Series.Metric ser))) (index s) sers"
proof (induction sers arbitrary: s)
  case Nil
  show ?case by simp
next
  case (Cons ser sers)
  obtain seriesID idx where add: "AddSeries (index s) (Series.Metric ser) = (seriesID, idx)"
    by (cases "AddSeries (index s) (Series.Metric ser)")
  let ?s1 = "s\<lparr>index := idx\<rparr>"
  obtain outcome s' where w:
    "write_blocks kv ?s1 tenantID seriesID (groupSamplesByBlock (Samples ser)) = (outcome, s')"
    by (cases "write_blocks kv ?s1 tenantID seriesID (groupSamplesByBlock (Samples ser))")
  have "outcome = None"
    using write_blocks_accepted [OF assms, of ?s1 tenantID seriesID
        "groupSamplesByBlock (Samples ser)"] by (simp add: w)
  moreover have "index s' = idx"
    using index_write_blocks [of kv ?s1 tenantID seriesID "groupSamplesByBlock (Samples ser)"]
    by (simp add: w)
  ultimately show ?case
    using Cons.IH [of s'] by (simp add: add w)
qed

lemma mem_kv_accepts: "\<forall>d k payload. \<exists>d'. txn_Set mem_kv d k payload = Inr d'"
  by (simp add: mem_kv_def)

lemma fp_test_write:
  "calculateFingerprint \<lparr> Name = ''test_metric'', Labels = [(''label'', ''value'')] \<rparr>
     = 422438541975843349"
  by code_simp

lemma Write_test_write:
  "fst (badgerStorage_Write mem_kv new_storage test_write) = None"
  "GetSeries (index (snd (badgerStorage_Write mem_kv new_storage test_write))) 422438541975843349
     = Some \<lparr> ID = 422438541975843349,
              seriesMetadata.Metric = \<lparr> Name = ''test_metric'', Labels = [(''label'', ''value'')] \<rparr>,
              MinTime = 0, MaxTime = 0 \<rparr>"
proof -
  note w = write_series_accepted [OF mem_kv_accepts, of new_storage "''test''"
      "WriteRequest.Series test_write"]
  show "fst (badgerStorage_Write mem_kv new_storage test_write) = None"
    using w by (simp add: badgerStorage_Write_def test_write_def)
  have "map_of (series NewIndex)
      (calculateFingerprint \<lparr> Name = ''test_metric'', Labels = [(''label'', ''value'')] \<rparr>) = None"
    by (simp add: NewIndex_def)
  from AddSeries_new(2) [OF this] w
  show "GetSeries (index (snd (badgerStorage_Write mem_kv new_storage test_write))) 422438541975843349
     = Some \<lparr> ID = 422438541975843349,
              seriesMetadata.Metric = \<lparr> Name = ''test_metric'', Labels = [(''label'', ''value'')] \<rparr>,
              MinTime = 0, MaxTime = 0 \<rparr>"
    by (simp add: badgerStorage_Write_def test_write_def new_storage_def GetSeries_def
        fp_test_write NewIndex_def)
qed


text \<open>
  C2. After a successful \<^verbatim>\<open>Write\<close> the index is to hold, for every series of the
  request, time bounds that cover the samples written. \<^verbatim>\<open>Write\<close> does not do that: it
  calls \<^verbatim>\<open>AddSeries\<close> and \<^verbatim>\<open>writeBlock\<close> and nothing else, so the bounds stay as
  \<^verbatim>\<open>AddSeries\<close> set them. On the request of \<^verbatim>\<open>TestWAL\<close> (one series, one sample in the
  second 1700000000) written to a new engine, the write succeeds and the bounds recorded
  for the series are 0 and 0 afterwards.
\<close>

theorem Write_leaves_bounds_unset:
  "fst (badgerStorage_Write mem_kv new_storage test_write) = None
   \<and> Samples (hd (WriteRequest.Series test_write))
       = [\<lparr> Sample.Timestamp = \<lparr> unix_sec = 1700000000, nanosecond = 500000000 \<rparr>,
            Value = Float64frombits 0x4045000000000000 \<rparr>]
   \<and> GetSeries (index (snd (badgerStorage_Write mem_kv new_storage test_write)))
         422438541975843349
       = Some \<lparr> ID = 422438541975843349,
                seriesMetadata.Metric =
                  \<lparr> Name = ''test_metric'', Labels = [(''label'', ''value'')] \<rparr>,
                MinTime = 0, MaxTime = 0 \<rparr>"
  using Write_test_write by (simp add: test_write_def)

subsection \<open>Truncation to the hour\<close>

lemma smod_nonneg: "0 \<le> a \<Longrightarrow> (a :: int) smod 3600 = a mod 3600"
  by (cases "a = 0") (simp_all add: smod_int_alt_def sgn_if)

lemma sdiv_smod_negated:
  fixes k n :: int
  assumes "0 \<le> k" and "0 \<le> n" and "n < 1000000000"
  shows "(- (k * 1000000000 + n)) sdiv 1000000000 = - k"
    and "(- (k * 1000000000 + n)) smod 1000000000 = - n"
proof -
  have nonneg: "0 \<le> k * 1000000000 + n"
    using assms by simp
  have d: "(k * 1000000000 + n) div 1000000000 = k"
    using assms by simp
  have m: "(k * 1000000000 + n) mod 1000000000 = n"
    using assms by simp
  show "(- (k * 1000000000 + n)) sdiv 1000000000 = - k"
  proof (cases "k * 1000000000 + n = 0")
    case True
    with assms have "k = 0" by linarith
    with True show ?thesis by simp
  next
    case False
    with nonneg have "0 < k * 1000000000 + n" by simp
    then show ?thesis
      using d by (simp add: signed_divide_int_def sgn_if)
  qed
  show "(- (k * 1000000000 + n)) smod 1000000000 = - n"
  proof (cases "k * 1000000000 + n = 0")
    case True
    with assms have "n = 0" by linarith
    with True show ?thesis by simp
  next
    case False
    with nonneg have "0 < k * 1000000000 + n" by simp
    then show ?thesis
      using m by (simp add: smod_int_alt_def sgn_if)
  qed
qed

lemma Truncate_Hour_floor:
  assumes lo: "- 62135596800 \<le> sint (unix_sec t)"
    and hi: "sint (unix_sec t) + 62135596800 < 2 ^ 63"
    and ns: "nanosecond t < 1000000000"
  shows "Truncate_Hour t
    = \<lparr> unix_sec = word_of_int (sint (unix_sec t) div 3600 * 3600), nanosecond = 0 \<rparr>"
proof -
  define u where "u = sint (unix_sec t)"
  define k where "k = (u + 62135596800) mod 3600"
  have k: "0 \<le> k" "k < 3600"
    by (simp_all add: k_def)
  have "k \<le> u + 62135596800"
    unfolding k_def using lo by (intro zmod_le_nonneg_dividend) (simp add: u_def)
  have s: "sint (sec t) = u + 62135596800"
  proof -
    have "sint (sec t) = signed_take_bit 63 (u + 62135596800)"
      by (simp add: sec_def unixToInternal_def sint_word_ariths u_def)
    then show ?thesis
      using lo hi by (simp add: signed_take_bit_int_eq_self u_def)
  qed
  then have nonneg: "\<not> sec t <s 0"
    using lo by (simp add: word_sless_alt u_def)
  have r: "div_Hour t = k * 1000000000 + int (nanosecond t)"
    using nonneg s lo by (simp add: div_Hour_def Let_def k_def smod_nonneg u_def)
  define d :: int64 where "d = word_of_int (- k)"
  have dsec: "sint d = - k"
    unfolding d_def using k by (simp only: sint_sbintrunc') (simp add: signed_take_bit_int_eq_self)
  have sum: "sint (sec t + d) = u + 62135596800 - k"
  proof -
    have "sint (sec t + d) = signed_take_bit 63 (sint (sec t) + sint d)"
      by (simp only: sint_word_ariths) simp
    then have "sint (sec t + d) = signed_take_bit 63 (u + 62135596800 - k)"
      by (simp only: s dsec) simp
    moreover have "- (2 ^ 63) \<le> u + 62135596800 - k" "u + 62135596800 - k < 2 ^ 63"
      using \<open>k \<le> u + 62135596800\<close> k hi by (simp_all add: u_def)
    ultimately show ?thesis
      by (simp add: signed_take_bit_int_eq_self)
  qed
  have add: "addSec (sec t) d = sec t + d"
    using k by (simp add: addSec_def Let_def word_sless_alt s sum dsec)
  have "u - k = u div 3600 * 3600"
  proof -
    have "(u + 3600 * 17259888) mod 3600 = u mod 3600"
      by (rule mod_mult_self2)
    then have "(u + 62135596800) mod 3600 = u mod 3600"
      by simp
    then show ?thesis
      unfolding k_def by (simp add: minus_mod_eq_div_mult)
  qed
  moreover have "unix_sec t = word_of_int u"
    by (simp add: u_def)
  ultimately have "sec t + d - unixToInternal = word_of_int (u div 3600 * 3600)"
    by (simp add: sec_def d_def flip: \<open>u - k = u div 3600 * 3600\<close>)
  with add have "addSec (sec t) d - unixToInternal
      = word_of_int (sint (unix_sec t) div 3600 * 3600)"
    by (simp only: u_def)
  moreover have "Truncate_Hour t = \<lparr> unix_sec = addSec (sec t) d - unixToInternal, nanosecond = 0 \<rparr>"
  proof -
    have "0 \<le> int (nanosecond t)" and "int (nanosecond t) < 1000000000"
      using ns by simp_all
    from sdiv_smod_negated [OF k(1) this]
    have "(- div_Hour t) sdiv 1000000000 = - k"
      and "(- div_Hour t) smod 1000000000 = - int (nanosecond t)"
      unfolding r by (simp_all only:)
    then show ?thesis
      unfolding Truncate_Hour_def Add_def by (simp add: d_def)
  qed
  ultimately show ?thesis
    by (simp only:)
qed

subsection \<open>The read path\<close>

declare hours_from.simps [simp del]

lemma After_instant:
  assumes "nanosecond t < 1000000000" and "nanosecond u < 1000000000"
  shows "After t u \<longleftrightarrow> instant u < instant t"
proof -
  have eq: "sec t = sec u \<longleftrightarrow> sint (sec t) = sint (sec u)"
    by (rule word_eq_iff_signed)
  show ?thesis
    using assms unfolding After_def instant_def word_sless_alt eq by auto
qed

lemma Before_instant:
  assumes "nanosecond t < 1000000000" and "nanosecond u < 1000000000"
  shows "Before t u \<longleftrightarrow> instant t < instant u"
proof -
  have eq: "sec t = sec u \<longleftrightarrow> sint (sec t) = sint (sec u)"
    by (rule word_eq_iff_signed)
  show ?thesis
    using assms unfolding Before_def instant_def word_sless_alt eq by auto
qed

lemma build_samples_whole_seconds:
  assumes "build_samples cnt tss vals = Inr block" and "sample \<in> set block"
  shows "nanosecond (Sample.Timestamp sample) = 0"
  using assms
  by (auto simp add: build_samples_def time_Unix_def Let_def split: if_splits option.splits)

lemma readBlock_whole_seconds:
  assumes "readBlock kv s tenantID seriesID blockTime = Inr block" and "sample \<in> set block"
  shows "nanosecond (Sample.Timestamp sample) = 0"
proof -
  from assms(1) obtain cnt tss vals where "build_samples cnt tss vals = Inr block"
    by (auto simp add: readBlock_def split: sum.splits)
  from build_samples_whole_seconds [OF this assms(2)] show ?thesis .
qed

lemma in_window_strictly_inside:
  assumes "nanosecond (StartTime req) < 1000000000" and "nanosecond (EndTime req) < 1000000000"
    and "nanosecond (Sample.Timestamp sample) < 1000000000"
  shows "in_window req sample \<longleftrightarrow> strictly_inside req sample"
  using assms by (simp add: in_window_def strictly_inside_def After_instant Before_instant)

lemma filter_block:
  assumes "nanosecond (StartTime req) < 1000000000" and "nanosecond (EndTime req) < 1000000000"
    and "readBlock kv s tenantID seriesID blockTime = Inr block"
  shows "filter (in_window req) block = filter (strictly_inside req) block"
proof (rule filter_cong [OF refl])
  fix sample
  assume "sample \<in> set block"
  from readBlock_whole_seconds [OF assms(3) this]
  show "in_window req sample = strictly_inside req sample"
    by (intro in_window_strictly_inside assms(1,2)) simp
qed

lemma sint_next_hour:
  fixes blockTime endBlock :: int64
  assumes "blockTime \<le>s endBlock" and "sint endBlock + 3600 < 2 ^ 63"
  shows "sint (blockTime + 3600) = sint blockTime + 3600"
proof -
  have "- (2 ^ 63) \<le> sint blockTime"
    using sint_ge [of blockTime] by simp
  moreover have "sint blockTime + 3600 < 2 ^ 63"
    using assms by (simp add: word_sle_eq)
  moreover have "sint (blockTime + 3600) = signed_take_bit 63 (sint blockTime + 3600)"
    by (simp add: sint_word_ariths)
  ultimately show ?thesis
    by (simp add: signed_take_bit_int_eq_self)
qed


lemma hours_from_step: "b \<le> e \<Longrightarrow> hours_from b e = b # hours_from (b + 3600) e"
  by (subst hours_from.simps) simp

lemma hours_from_done: "\<not> b \<le> e \<Longrightarrow> hours_from b e = []"
  by (subst hours_from.simps) simp

lemma hours_from_member:
  "x \<in> set (hours_from b e) \<longleftrightarrow> (\<exists>k. x = b + 3600 * int k \<and> x \<le> e)"
proof (induction b e rule: hours_from.induct)
  case (1 b e)
  show ?case
  proof (cases "b \<le> e")
    case False
    then have "\<not> (\<exists>k. x = b + 3600 * int k \<and> x \<le> e)"
      by auto
    with False show ?thesis
      by (simp add: hours_from_done)
  next
    case True
    have "(\<exists>k. x = b + 3600 * int k \<and> x \<le> e)
        \<longleftrightarrow> x = b \<or> (\<exists>k. x = b + 3600 + 3600 * int k \<and> x \<le> e)"
    proof
      assume "\<exists>k. x = b + 3600 * int k \<and> x \<le> e"
      then obtain k where k: "x = b + 3600 * int k" "x \<le> e"
        by blast
      show "x = b \<or> (\<exists>k. x = b + 3600 + 3600 * int k \<and> x \<le> e)"
      proof (cases k)
        case 0
        with k show ?thesis by simp
      next
        case (Suc k')
        with k have "x = b + 3600 + 3600 * int k'"
          by simp
        with k(2) show ?thesis by blast
      qed
    next
      assume "x = b \<or> (\<exists>k. x = b + 3600 + 3600 * int k \<and> x \<le> e)"
      then show "\<exists>k. x = b + 3600 * int k \<and> x \<le> e"
      proof
        assume "x = b"
        with True have "x = b + 3600 * int 0 \<and> x \<le> e"
          by simp
        then show ?thesis by blast
      next
        assume "\<exists>k. x = b + 3600 + 3600 * int k \<and> x \<le> e"
        then obtain k where "x = b + 3600 + 3600 * int k" "x \<le> e"
          by blast
        then have "x = b + 3600 * int (Suc k) \<and> x \<le> e"
          by simp
        then show ?thesis by blast
      qed
    qed
    with True "1.IH" show ?thesis
      by (simp add: hours_from_step)
  qed
qed

lemma read_blocks_eq:
  fixes endBlock :: int64
  assumes "sint endBlock + 3600 < 2 ^ 63"
    and "\<forall>blockTime. \<not> panics (readBlock kv s (QueryRequest.TenantID req) seriesID blockTime)"
    and "nanosecond (StartTime req) < 1000000000" and "nanosecond (EndTime req) < 1000000000"
  shows "sint blockTime = b \<Longrightarrow> sint endBlock = e \<Longrightarrow>
    read_blocks kv s req seriesID blockTime endBlock acc
      = Some (Inr (acc @ concat (map (\<lambda>x. kept_of_block kv s req seriesID (word_of_int x))
                                  (hours_from b e))))"
proof (induction b e arbitrary: blockTime acc rule: hours_from.induct)
  case (1 b e)
  show ?case
  proof (cases "b \<le> e")
    case False
    with "1.prems" have "\<not> blockTime \<le>s endBlock"
      by (simp add: word_sle_eq)
    then have "read_blocks kv s req seriesID blockTime endBlock acc = Some (Inr acc)"
      by (subst read_blocks.simps) simp
    with False show ?thesis
      by (simp add: hours_from_done)
  next
    case True
    with "1.prems" have le: "blockTime \<le>s endBlock"
      by (simp add: word_sle_eq)
    have next_hour: "sint (blockTime + 3600) = b + 3600"
      using sint_next_hour [OF le assms(1)] "1.prems"(1) by simp
    have here: "word_of_int b = blockTime"
      using "1.prems"(1) by auto
    note IH = "1.IH" [OF True next_hour "1.prems"(2)]
    show ?thesis
    proof (cases "readBlock kv s (QueryRequest.TenantID req) seriesID blockTime")
      case (Inl err)
      with assms(2) have "\<not> is_panic err"
        by (auto simp add: panics_def split: sum.splits dest: spec [of _ blockTime])
      with Inl le have "read_blocks kv s req seriesID blockTime endBlock acc
          = read_blocks kv s req seriesID (blockTime + 3600) endBlock acc"
        by (subst read_blocks.simps) simp
      moreover have "kept_of_block kv s req seriesID blockTime = []"
        by (simp add: kept_of_block_def Inl)
      ultimately show ?thesis
        using IH [of acc] by (simp add: hours_from_step [OF True] here)
    next
      case (Inr block)
      with le have "read_blocks kv s req seriesID blockTime endBlock acc
          = read_blocks kv s req seriesID (blockTime + 3600) endBlock
              (acc @ filter (in_window req) block)"
        by (subst read_blocks.simps) simp
      moreover have "kept_of_block kv s req seriesID blockTime = filter (in_window req) block"
        using filter_block [OF assms(3,4) Inr] by (simp add: kept_of_block_def Inr)
      ultimately show ?thesis
        using IH [of "acc @ filter (in_window req) block"]
        by (simp add: hours_from_step [OF True] here)
    qed
  qed
qed

lemma read_blocks_series:
  assumes "sint (Unix (Truncate_Hour (EndTime req))) + 3600 < 2 ^ 63"
    and "\<forall>blockTime. \<not> panics (readBlock kv s (QueryRequest.TenantID req) seriesID blockTime)"
    and "nanosecond (StartTime req) < 1000000000" and "nanosecond (EndTime req) < 1000000000"
  shows "read_blocks kv s req seriesID (Unix (Truncate_Hour (StartTime req)))
      (Unix (Truncate_Hour (EndTime req))) [] = Some (Inr (kept_of_series kv s req seriesID))"
  using read_blocks_eq [OF assms refl refl, where acc = "[]"]
  by (simp add: kept_of_series_def block_starts_def comp_def)

lemma query_series_eq:
  assumes "sint (Unix (Truncate_Hour (EndTime req))) + 3600 < 2 ^ 63"
    and "\<forall>seriesID blockTime.
          \<not> panics (readBlock kv s (QueryRequest.TenantID req) seriesID blockTime)"
    and "nanosecond (StartTime req) < 1000000000" and "nanosecond (EndTime req) < 1000000000"
  shows "query_series kv s req seriesIDs acc
    = Some (Inr (acc @ concat (map (series_of_result kv s req) seriesIDs)))"
proof (induction seriesIDs arbitrary: acc)
  case Nil
  show ?case by simp
next
  case (Cons seriesID seriesIDs)
  from assms(2) have "\<forall>blockTime.
      \<not> panics (readBlock kv s (QueryRequest.TenantID req) seriesID blockTime)"
    by blast
  note blocks = read_blocks_series [OF assms(1) this assms(3,4)]
  show ?case
  proof (cases "GetSeries (index s) seriesID")
    case None
    with Cons.IH [of acc] show ?thesis
      by (simp add: series_of_result_def)
  next
    case (Some meta)
    show ?thesis
    proof (cases "kept_of_series kv s req seriesID = []")
      case True
      with Some blocks Cons.IH [of acc] show ?thesis
        by (simp add: series_of_result_def)
    next
      case False
      with Some blocks
        Cons.IH [of "acc @ [\<lparr> Series.Metric = seriesMetadata.Metric meta,
                              Samples = kept_of_series kv s req seriesID \<rparr>]"]
      show ?thesis
        by (simp add: series_of_result_def)
    qed
  qed
qed

subsection \<open>Blocks written and read back\<close>

lemma binary_Read_error: "binary_Read buf = Inl err \<Longrightarrow> \<not> is_panic err"
  unfolding binary_Read_def by (cases "buf = []"; cases "length buf < 8") auto

lemma read_deltas_result:
  "(case read_deltas n buf acc prev prevDelta of
      Inl err \<Rightarrow> \<not> is_panic err
    | Inr ts \<Rightarrow> length ts = length acc + n)"
proof (induction n arbitrary: buf acc prev prevDelta)
  case 0
  show ?case by simp
next
  case (Suc n)
  show ?case
  proof (cases "binary_Read buf")
    case (Inl err)
    with binary_Read_error [OF Inl] show ?thesis
      by simp
  next
    case (Inr r)
    obtain deltaOfDelta buf' where r: "r = (deltaOfDelta, buf')"
      by (cases r)
    from Suc.IH [where buf = buf' and acc = "acc @ [prev + (deltaOfDelta + prevDelta)]"
        and prev = "prev + (deltaOfDelta + prevDelta)" and prevDelta = "deltaOfDelta + prevDelta"]
    show ?thesis
      by (simp add: Inr r Let_def split: sum.splits)
  qed
qed

lemma read_xors_result:
  "(case read_xors n buf acc prevBits of
      Inl err \<Rightarrow> \<not> is_panic err
    | Inr vs \<Rightarrow> length vs = length acc + n)"
proof (induction n arbitrary: buf acc prevBits)
  case 0
  show ?case by simp
next
  case (Suc n)
  show ?case
  proof (cases "binary_Read buf")
    case (Inl err)
    with binary_Read_error [OF Inl] show ?thesis
      by simp
  next
    case (Inr r)
    obtain xorBits buf' where r: "r = (xorBits, buf')"
      by (cases r)
    from Suc.IH [where buf = buf' and acc = "acc @ [Float64frombits (xorBits XOR prevBits)]"
        and prevBits = "xorBits XOR prevBits"]
    show ?thesis
      by (simp add: Inr r Let_def split: sum.splits)
  qed
qed

lemma DecompressTimestamps_result:
  assumes "1 \<le> n" and "data \<noteq> []" and "8 * n \<le> maxAlloc"
  shows "(case DecompressTimestamps c data n of
      Inl err \<Rightarrow> \<not> is_panic err
    | Inr ts \<Rightarrow> length ts = nat n)"
proof (cases "decoder c data")
  case (Inl err)
  with assms show ?thesis
    by (simp add: DecompressTimestamps_def)
next
  case (Inr decompressed)
  have fits: "makeslice 8 n = None"
    using assms(1,3) by (simp add: makeslice_fits)
  show ?thesis
  proof (cases "binary_Read decompressed")
    case (Inl err)
    with binary_Read_error [OF Inl] assms Inr fits show ?thesis
      by (simp add: DecompressTimestamps_def)
  next
    case br: (Inr r)
    obtain t0 buf where r: "r = (t0, buf)"
      by (cases r)
    have "DecompressTimestamps c data n = read_deltas (nat (n - 1)) buf [t0] t0 0"
      using assms Inr br r fits by (simp add: DecompressTimestamps_def)
    moreover have "length [t0] + nat (n - 1) = nat n"
      using assms(1) by simp
    ultimately show ?thesis
      using read_deltas_result [where n = "nat (n - 1)" and buf = buf and acc = "[t0]"
          and prev = t0 and prevDelta = 0]
      by (simp split: sum.splits)
  qed
qed

lemma DecompressValues_result:
  assumes "1 \<le> n" and "data \<noteq> []" and "8 * n \<le> maxAlloc"
  shows "(case DecompressValues c data n of
      Inl err \<Rightarrow> \<not> is_panic err
    | Inr vs \<Rightarrow> length vs = nat n)"
proof (cases "decoder c data")
  case (Inl err)
  with assms show ?thesis
    by (simp add: DecompressValues_def)
next
  case (Inr decompressed)
  have fits: "makeslice 8 n = None"
    using assms(1,3) by (simp add: makeslice_fits)
  show ?thesis
  proof (cases "binary_Read decompressed")
    case (Inl err)
    with binary_Read_error [OF Inl] assms Inr fits show ?thesis
      by (simp add: DecompressValues_def)
  next
    case br: (Inr r)
    obtain firstBits buf where r: "r = (firstBits, buf)"
      by (cases r)
    have "DecompressValues c data n
        = read_xors (nat (n - 1)) buf [Float64frombits firstBits] firstBits"
      using assms Inr br r fits by (simp add: DecompressValues_def)
    moreover have "length [Float64frombits firstBits] + nat (n - 1) = nat n"
      using assms(1) by simp
    ultimately show ?thesis
      using read_xors_result [where n = "nat (n - 1)" and buf = buf
          and acc = "[Float64frombits firstBits]" and prevBits = firstBits]
      by (simp split: sum.splits)
  qed
qed

lemma wrap_no_panic: "\<not> is_panic err \<Longrightarrow> \<not> is_panic (wrap m err)"
  by (simp add: wrap_def)

lemma readBlock_no_panic:
  assumes "store_sound kv (db s)"
  shows "\<not> panics (readBlock kv s tenantID seriesID blockTime)"
proof (cases "txn_Get kv (db s) (generateKey tenantID seriesID blockTime)")
  case (Inl err)
  with assms have "\<not> is_panic err"
    unfolding store_sound_def by blast
  with Inl show ?thesis
    by (simp add: readBlock_def panics_def)
next
  case (Inr payload)
  with assms have "well_formed payload"
    unfolding store_sound_def by blast
  then have n: "1 \<le> Count payload" and ts: "CompressedTS payload \<noteq> []"
    and vs: "CompressedValues payload \<noteq> []" and fits: "32 * Count payload \<le> maxAlloc"
    by (simp_all add: well_formed_def)
  from n fits have fits8: "8 * Count payload \<le> maxAlloc"
    by simp
  note dt = DecompressTimestamps_result [OF n ts fits8, of "compressor s"]
  note dv = DecompressValues_result [OF n vs fits8, of "compressor s"]
  show ?thesis
  proof (cases "DecompressTimestamps (compressor s) (CompressedTS payload) (Count payload)")
    case (Inl err)
    with dt have "\<not> is_panic (wrap ''failed to decompress timestamps'' err)"
      by (simp add: wrap_no_panic)
    with Inl Inr show ?thesis
      by (simp add: readBlock_def panics_def)
  next
    case tss: (Inr tss)
    show ?thesis
    proof (cases "DecompressValues (compressor s) (CompressedValues payload) (Count payload)")
      case (Inl err)
      with dv have "\<not> is_panic (wrap ''failed to decompress values'' err)"
        by (simp add: wrap_no_panic)
      with Inl tss Inr show ?thesis
        by (simp add: readBlock_def panics_def)
    next
      case vals: (Inr vals)
      from n fits have "makeslice 32 (Count payload) = None"
        by (simp add: makeslice_fits)
      with dt dv tss vals n have "build_samples (Count payload) tss vals
          = Inr (map (\<lambda>i. \<lparr> Sample.Timestamp = time_Unix (tss ! i) 0, Value = vals ! i \<rparr>)
                   [0..<nat (Count payload)])"
        by (simp add: build_samples_def)
      with vals tss Inr show ?thesis
        by (simp add: readBlock_def panics_def)
    qed
  qed
qed

lemma writeBlock_success:
  assumes "writeBlock kv s tenantID seriesID blockTime samples = (None, s')"
  obtains cts cvs db' where
    "CompressTimestamps (compressor s) (map (\<lambda>sample. Unix (Sample.Timestamp sample)) samples)
       = Inr cts"
    and "CompressValues (compressor s) (map Value samples) = Inr cvs"
    and "txn_Set kv (db s) (generateKey tenantID seriesID blockTime)
       \<lparr> Count = int (length samples), CompressedTS = cts, CompressedValues = cvs \<rparr> = Inr db'"
    and "s' = s\<lparr>db := db'\<rparr>"
proof -
  obtain cts where cts: "CompressTimestamps (compressor s)
      (map (\<lambda>sample. Unix (Sample.Timestamp sample)) samples) = Inr cts"
    using Compress_succeeds(1) by blast
  obtain cvs where cvs: "CompressValues (compressor s) (map Value samples) = Inr cvs"
    using Compress_succeeds(2) by blast
  show thesis
  proof (cases "txn_Set kv (db s) (generateKey tenantID seriesID blockTime)
      \<lparr> Count = int (length samples), CompressedTS = cts, CompressedValues = cvs \<rparr>")
    case (Inl err)
    with assms show ?thesis
      by (simp add: writeBlock_def cts cvs)
  next
    case (Inr db')
    with assms have "s' = s\<lparr>db := db'\<rparr>"
      by (simp add: writeBlock_def cts cvs)
    with cts cvs Inr show ?thesis
      by (rule that)
  qed
qed

lemma writeBlock_failure:
  assumes "writeBlock kv s tenantID seriesID blockTime samples = (Some err, s')"
  shows "s' = s"
  using assms by (simp add: writeBlock_def Let_def split: sum.splits)

lemma seconds_only_fields:
  "Unix (Sample.Timestamp (seconds_only sample)) = Unix (Sample.Timestamp sample)"
  "nanosecond (Sample.Timestamp (seconds_only sample)) = 0"
  "Value (seconds_only sample) = Value sample"
  "seconds_only sample = sample \<longleftrightarrow> nanosecond (Sample.Timestamp sample) = 0"
proof -
  show "Unix (Sample.Timestamp (seconds_only sample)) = Unix (Sample.Timestamp sample)"
    "nanosecond (Sample.Timestamp (seconds_only sample)) = 0"
    "Value (seconds_only sample) = Value sample"
    by (simp_all add: seconds_only_def time_Unix_def Unix_def)
  have "time_Unix (Unix t) 0 = t \<longleftrightarrow> nanosecond t = 0" for t
    by (cases t) (auto simp add: time_Unix_def Unix_def)
  then show "seconds_only sample = sample \<longleftrightarrow> nanosecond (Sample.Timestamp sample) = 0"
    by (cases sample) (simp add: seconds_only_def)
qed

lemma build_samples_seconds_only:
  assumes "32 * int (length samples) \<le> maxAlloc"
  shows "build_samples (int (length samples))
     (map (\<lambda>sample. Unix (Sample.Timestamp sample)) samples) (map Value samples)
   = Inr (map seconds_only samples)"
proof -
  have fits: "makeslice 32 (int (length samples)) = None"
    using assms by (simp add: makeslice_fits)
  have "map (\<lambda>i. \<lparr> Sample.Timestamp =
            time_Unix (map (\<lambda>sample. Unix (Sample.Timestamp sample)) samples ! i) 0,
          Value = map Value samples ! i \<rparr>) [0..<length samples]
      = map seconds_only samples"
    by (rule nth_equalityI) (simp_all add: seconds_only_def)
  with fits show ?thesis
    by (simp add: build_samples_def)
qed

lemma readBlock_writeBlock:
  assumes "zstd_lossless (compressor s)" and "kv_lawful kv" and "samples \<noteq> []"
    and "writeBlock kv s tenantID seriesID blockTime samples = (None, s')"
    and "32 * int (length samples) \<le> maxAlloc"
  shows "readBlock kv s' tenantID seriesID blockTime = Inr (map seconds_only samples)"
proof -
  let ?ts = "map (\<lambda>sample. Unix (Sample.Timestamp sample)) samples"
  let ?vs = "map Value samples"
  from assms(4) obtain cts cvs db' where
    cts: "CompressTimestamps (compressor s) ?ts = Inr cts"
    and cvs: "CompressValues (compressor s) ?vs = Inr cvs"
    and set: "txn_Set kv (db s) (generateKey tenantID seriesID blockTime)
       \<lparr> Count = int (length samples), CompressedTS = cts, CompressedValues = cvs \<rparr> = Inr db'"
    and s': "s' = s\<lparr>db := db'\<rparr>"
    by (rule writeBlock_success)
  from assms(3,5) have "?ts \<noteq> []" "?vs \<noteq> []"
    "8 * int (length ?ts) \<le> maxAlloc" "8 * int (length ?vs) \<le> maxAlloc"
    by simp_all
  with timestamps_round_trip [OF assms(1), of ?ts] values_round_trip [OF assms(1), of ?vs] cts cvs
  have dts: "DecompressTimestamps (compressor s) cts (int (length samples)) = Inr ?ts"
    and dvs: "DecompressValues (compressor s) cvs (int (length samples)) = Inr ?vs"
    by auto
  from assms(2) set
  have "txn_Get kv db' (generateKey tenantID seriesID blockTime)
      = Inr \<lparr> Count = int (length samples), CompressedTS = cts, CompressedValues = cvs \<rparr>"
    unfolding kv_lawful_def by simp
  then show ?thesis
    by (simp add: readBlock_def s' dts dvs build_samples_seconds_only [OF assms(5)])
qed

lemma writeBlock_sound:
  assumes "zstd_lossless (compressor s)" and "kv_lawful kv" and "store_sound kv (db s)"
    and "samples \<noteq> []" and "32 * int (length samples) \<le> maxAlloc"
  shows "store_sound kv (db (snd (writeBlock kv s tenantID seriesID blockTime samples)))"
proof (cases "writeBlock kv s tenantID seriesID blockTime samples")
  case (Pair outcome s')
  show ?thesis
  proof (cases outcome)
    case (Some err)
    with Pair writeBlock_failure [of kv s tenantID seriesID blockTime samples err s'] assms(3)
    show ?thesis by simp
  next
    case None
    let ?ts = "map (\<lambda>sample. Unix (Sample.Timestamp sample)) samples"
    let ?vs = "map Value samples"
    from Pair None obtain cts cvs db' where
      cts: "CompressTimestamps (compressor s) ?ts = Inr cts"
      and cvs: "CompressValues (compressor s) ?vs = Inr cvs"
      and set: "txn_Set kv (db s) (generateKey tenantID seriesID blockTime)
         \<lparr> Count = int (length samples), CompressedTS = cts, CompressedValues = cvs \<rparr> = Inr db'"
      and s': "s' = s\<lparr>db := db'\<rparr>"
      by (auto elim: writeBlock_success)
    from assms(4,5) have "?ts \<noteq> []" "?vs \<noteq> []"
      "8 * int (length ?ts) \<le> maxAlloc" "8 * int (length ?vs) \<le> maxAlloc"
      by simp_all
    with timestamps_round_trip [OF assms(1), of ?ts] values_round_trip [OF assms(1), of ?vs] cts cvs
    have "cts \<noteq> []" "cvs \<noteq> []"
      by auto
    with assms(4,5) have wf: "well_formed
        \<lparr> Count = int (length samples), CompressedTS = cts, CompressedValues = cvs \<rparr>"
      by (cases samples) (simp_all add: well_formed_def)
    from assms(2) set have get: "txn_Get kv db' k' =
        (if k' = generateKey tenantID seriesID blockTime
         then Inr \<lparr> Count = int (length samples), CompressedTS = cts, CompressedValues = cvs \<rparr>
         else txn_Get kv (db s) k')" for k'
      unfolding kv_lawful_def by blast
    have "store_sound kv db'"
      unfolding store_sound_def
    proof (intro conjI allI impI)
      fix k payload
      assume "txn_Get kv db' k = Inr payload"
      with get [of k] wf assms(3) show "well_formed payload"
        unfolding store_sound_def by (cases "k = generateKey tenantID seriesID blockTime") auto
    next
      fix k err
      assume "txn_Get kv db' k = Inl err"
      with get [of k] assms(3) show "\<not> is_panic err"
        unfolding store_sound_def by (cases "k = generateKey tenantID seriesID blockTime") auto
    qed
    with Pair s' show ?thesis
      by simp
  qed
qed

lemma read_blocks_whole_seconds:
  assumes "read_blocks kv s req seriesID blockTime endBlock acc = Some r"
  shows "(\<forall>sample\<in>set acc. nanosecond (Sample.Timestamp sample) = 0) \<longrightarrow>
    (case r of Inl err \<Rightarrow> True
     | Inr out \<Rightarrow> \<forall>sample\<in>set out. nanosecond (Sample.Timestamp sample) = 0)"
proof (rule read_blocks.raw_induct [where
      P = "\<lambda>kv s req seriesID blockTime endBlock acc r.
        (\<forall>sample\<in>set acc. nanosecond (Sample.Timestamp sample) = 0) \<longrightarrow>
        (case r of Inl err \<Rightarrow> True
         | Inr out \<Rightarrow> \<forall>sample\<in>set out. nanosecond (Sample.Timestamp sample) = 0)",
      OF _ assms])
  fix loop :: "'a kvstore \<Rightarrow> 'a badgerStorage \<Rightarrow> QueryRequest \<Rightarrow> uint64 \<Rightarrow> int64 \<Rightarrow> int64
      \<Rightarrow> Sample list \<Rightarrow> (error + Sample list) option"
  fix kv s req seriesID blockTime endBlock acc r
  assume IH: "\<And>kv s req seriesID blockTime endBlock acc r.
      loop kv s req seriesID blockTime endBlock acc = Some r \<Longrightarrow>
      (\<forall>sample\<in>set acc. nanosecond (Sample.Timestamp sample) = 0) \<longrightarrow>
      (case r of Inl err \<Rightarrow> True
       | Inr out \<Rightarrow> \<forall>sample\<in>set out. nanosecond (Sample.Timestamp sample) = 0)"
  assume body: "(if blockTime \<le>s endBlock
      then case readBlock kv s (QueryRequest.TenantID req) seriesID blockTime of
           Inl err \<Rightarrow>
             if is_panic err then Some (Inl err)
             else loop kv s req seriesID (blockTime + 3600) endBlock acc
         | Inr block \<Rightarrow>
             loop kv s req seriesID (blockTime + 3600) endBlock
               (acc @ filter (in_window req) block)
      else Some (Inr acc)) = Some r"
  show "(\<forall>sample\<in>set acc. nanosecond (Sample.Timestamp sample) = 0) \<longrightarrow>
      (case r of Inl err \<Rightarrow> True
       | Inr out \<Rightarrow> \<forall>sample\<in>set out. nanosecond (Sample.Timestamp sample) = 0)"
  proof (cases "blockTime \<le>s endBlock")
    case False
    with body show ?thesis
      by (auto split: sum.splits)
  next
    case True
    show ?thesis
    proof (cases "readBlock kv s (QueryRequest.TenantID req) seriesID blockTime")
      case (Inl err)
      show ?thesis
      proof (cases "is_panic err")
        case True
        with Inl \<open>blockTime \<le>s endBlock\<close> body have "r = Inl err"
          by simp
        then show ?thesis
          by simp
      next
        case False
        with Inl True body
        have "loop kv s req seriesID (blockTime + 3600) endBlock acc = Some r"
          by simp
        from IH [OF this] show ?thesis .
      qed
    next
      case (Inr block)
      with True body
      have "loop kv s req seriesID (blockTime + 3600) endBlock
          (acc @ filter (in_window req) block) = Some r"
        by simp
      from IH [OF this] readBlock_whole_seconds [OF Inr] show ?thesis
        by auto
    qed
  qed
qed

lemma query_series_whole_seconds:
  assumes "query_series kv s req seriesIDs acc = Some (Inr out)"
    and "\<forall>ser\<in>set acc. \<forall>sample\<in>set (Samples ser). nanosecond (Sample.Timestamp sample) = 0"
  shows "\<forall>ser\<in>set out. \<forall>sample\<in>set (Samples ser). nanosecond (Sample.Timestamp sample) = 0"
  using assms
proof (induction seriesIDs arbitrary: acc)
  case Nil
  then show ?case by simp
next
  case (Cons seriesID seriesIDs)
  show ?case
  proof (cases "GetSeries (index s) seriesID")
    case None
    with Cons.prems Cons.IH [of acc] show ?thesis
      by simp
  next
    case (Some meta)
    show ?thesis
    proof (cases "read_blocks kv s req seriesID (Unix (Truncate_Hour (StartTime req)))
        (Unix (Truncate_Hour (EndTime req))) []")
      case None
      with Some Cons.prems(1) show ?thesis
        by simp
    next
      case blocks: (Some r)
      show ?thesis
      proof (cases r)
        case (Inl err)
        with Some blocks Cons.prems(1) show ?thesis
          by simp
      next
        case (Inr samples)
        from read_blocks_whole_seconds [OF blocks] Inr
        have whole: "\<forall>sample\<in>set samples. nanosecond (Sample.Timestamp sample) = 0"
          by simp
        let ?acc = "if length samples > 0
            then acc @ [\<lparr> Series.Metric = seriesMetadata.Metric meta, Samples = samples \<rparr>]
            else acc"
        from Some blocks Inr Cons.prems(1)
        have "query_series kv s req seriesIDs ?acc = Some (Inr out)"
          by simp
        moreover from whole Cons.prems(2)
        have "\<forall>ser\<in>set ?acc. \<forall>sample\<in>set (Samples ser).
            nanosecond (Sample.Timestamp sample) = 0"
          by auto
        ultimately show ?thesis
          by (rule Cons.IH)
      qed
    qed
  qed
qed

lemma Query_whole_seconds:
  assumes "badgerStorage_Query kv s req = Some (Inr res)"
    and "ser \<in> set (QueryResult.Series res)" and "sample \<in> set (Samples ser)"
  shows "nanosecond (Sample.Timestamp sample) = 0"
proof -
  from assms(1) obtain out where
    "query_series kv s req (fst (FindSeries (index s) (parseLabelSelectors (Query req)))) []
       = Some (Inr out)"
    and "res = \<lparr> QueryResult.Series = out, Error = None \<rparr>"
    by (auto simp add: badgerStorage_Query_def Let_def split: option.splits sum.splits)
  with query_series_whole_seconds [of kv s req _ "[]" out] assms(2,3) show ?thesis
    by auto
qed

lemma Query_eq_spec:
  assumes "sint (Unix (Truncate_Hour (EndTime req))) + 3600 < 2 ^ 63"
    and "\<forall>seriesID blockTime.
          \<not> panics (readBlock kv s (QueryRequest.TenantID req) seriesID blockTime)"
    and "nanosecond (StartTime req) < 1000000000" and "nanosecond (EndTime req) < 1000000000"
  shows "badgerStorage_Query kv s req = Some (Inr (Query_spec kv s req))"
  using query_series_eq [OF assms, of _ "[]"]
  by (simp add: badgerStorage_Query_def Query_spec_def Let_def)

subsection \<open>A concrete write and its queries\<close>

lemma kv_lawful_mem_kv: "kv_lawful mem_kv"
  by (simp add: kv_lawful_def mem_kv_def)

lemma store_sound_new_storage: "store_sound mem_kv (db new_storage)"
  by (simp add: store_sound_def mem_kv_def new_storage_def)

lemma test_write_parts:
  "test_write = \<lparr> WriteRequest.TenantID = ''test'',
      WriteRequest.Series =
        [\<lparr> Series.Metric = test_write_metric, Samples = [test_write_sample] \<rparr>] \<rparr>"
  by (simp add: test_write_def test_write_metric_def test_write_sample_def)

lemmas time_eval = Unix_def Truncate_Hour_def div_Hour_def Add_def addSec_def sec_def
  unixToInternal_def Let_def word_sless_alt

lemma test_sample_hour:
  "Unix (Truncate_Hour \<lparr> unix_sec = 1700000000, nanosecond = 500000000 \<rparr>) = 1699999200"
  by (simp add: time_eval)

lemma test_sample_block:
  "groupSamplesByBlock [test_write_sample] = [(1699999200, [test_write_sample])]"
proof -
  have "Sample.Timestamp test_write_sample = \<lparr> unix_sec = 1700000000, nanosecond = 500000000 \<rparr>"
    by (simp add: test_write_sample_def)
  then show ?thesis
    by (simp add: groupSamplesByBlock_def test_sample_hour)
qed

lemma fp_test_write_metric: "calculateFingerprint test_write_metric = 422438541975843349"
  unfolding test_write_metric_def by (rule fp_test_write)

lemma AddSeries_test_write_metric:
  "fst (AddSeries NewIndex test_write_metric) = 422438541975843349"
proof -
  have "map_of (series NewIndex) (calculateFingerprint test_write_metric) = None"
    by (simp add: NewIndex_def)
  from AddSeries_new(1) [OF this] show ?thesis
    by (simp only: fp_test_write_metric)
qed

lemma indexed_storage_fields:
  "db indexed_storage = Map.empty" "compressor indexed_storage = stored_frames"
  "index indexed_storage = snd (AddSeries NewIndex test_write_metric)"
  by (simp_all add: indexed_storage_def new_storage_def)

lemma writeBlock_test_write:
  "writeBlock mem_kv indexed_storage ''test'' 422438541975843349 1699999200 [test_write_sample]
     = (None, written_storage)"
proof -
  let ?w = "writeBlock mem_kv indexed_storage ''test'' 422438541975843349 1699999200
      [test_write_sample]"
  let ?ser = "\<lparr> Series.Metric = test_write_metric, Samples = [test_write_sample] \<rparr>"
  have accepted: "fst ?w = None"
    by (rule writeBlock_accepted [OF mem_kv_accepts])
  have add: "AddSeries (index new_storage) (Series.Metric ?ser)
      = (422438541975843349, index indexed_storage)"
    by (simp add: new_storage_def indexed_storage_def prod_eq_iff AddSeries_test_write_metric)
  have blocks: "groupSamplesByBlock (Samples ?ser) = [(1699999200, [test_write_sample])]"
    by (simp add: test_sample_block)
  have indexed: "new_storage\<lparr>index := index indexed_storage\<rparr> = indexed_storage"
    by (simp add: indexed_storage_def)
  have wb: "write_blocks mem_kv indexed_storage ''test'' 422438541975843349
        [(1699999200, [test_write_sample])] = (None, snd ?w)"
    using accepted by (simp add: case_prod_unfold)
  have "write_series mem_kv new_storage ''test'' [?ser] = (None, snd ?w)"
    by (subst write_series.simps(2))
      (simp only: add blocks Let_def prod.case indexed wb option.case write_series.simps(1))
  then have "badgerStorage_Write mem_kv new_storage test_write = (None, snd ?w)"
    by (simp add: badgerStorage_Write_def test_write_parts)
  then have "written_storage = snd ?w"
    by (simp add: written_storage_def)
  with accepted show ?thesis
    by (simp add: prod_eq_iff)
qed

lemma written_storage_fields:
  "compressor written_storage = stored_frames"
  "index written_storage = snd (AddSeries NewIndex test_write_metric)"
proof -
  have "index written_storage = index indexed_storage"
    using index_writeBlock [of mem_kv indexed_storage "''test''" 422438541975843349
        1699999200 "[test_write_sample]"]
    by (simp add: writeBlock_test_write)
  then show "index written_storage = snd (AddSeries NewIndex test_write_metric)"
    by (simp add: indexed_storage_fields)
  from writeBlock_test_write obtain db' where eq: "written_storage = indexed_storage\<lparr>db := db'\<rparr>"
    by (rule writeBlock_success) simp
  show "compressor written_storage = stored_frames"
    by (subst eq) (simp add: indexed_storage_fields)
qed

lemma one_sample_fits: "32 * int (length [test_write_sample]) \<le> maxAlloc"
  by (simp add: maxAlloc_def)

lemma store_sound_written_storage: "store_sound mem_kv (db written_storage)"
proof -
  have "store_sound mem_kv (db indexed_storage)"
    by (simp add: store_sound_def mem_kv_def indexed_storage_fields)
  with writeBlock_sound [where s = indexed_storage and kv = mem_kv
      and samples = "[test_write_sample]" and tenantID = "''test''"
      and seriesID = 422438541975843349 and blockTime = 1699999200, OF _ kv_lawful_mem_kv _ _
      one_sample_fits]
  show ?thesis
    by (simp add: indexed_storage_fields zstd_lossless_stored_frames writeBlock_test_write)
qed

lemma readBlock_written_storage:
  "readBlock mem_kv written_storage ''test'' 422438541975843349 1699999200
     = Inr [seconds_only test_write_sample]"
  using readBlock_writeBlock [where s = indexed_storage, OF _ kv_lawful_mem_kv _
      writeBlock_test_write one_sample_fits]
  by (simp add: indexed_storage_fields zstd_lossless_stored_frames)

lemma seconds_only_test_write_sample:
  "seconds_only test_write_sample
     = \<lparr> Sample.Timestamp = \<lparr> unix_sec = 1700000000, nanosecond = 0 \<rparr>,
         Value = Float64frombits 0x4045000000000000 \<rparr>"
  by (simp add: seconds_only_def test_write_sample_def time_Unix_def Unix_def)

lemma FindSeries_single:
  assumes "bucket idx n v = Some ids" and "ids \<noteq> []"
  shows "fst (FindSeries idx [(n, v)]) = ids"
proof -
  from assms(1) obtain valueMap where "labelIndex idx n = Some valueMap"
    and "valueMap v = Some ids"
    by (auto simp add: bucket_def split: option.splits)
  with assms(2) show ?thesis
    by (simp add: FindSeries_def)
qed

lemma FindSeries_written_storage:
  "fst (FindSeries (index written_storage) (parseLabelSelectors ''test_metric''))
     = [422438541975843349]"
proof -
  have none: "map_of (series NewIndex) (calculateFingerprint test_write_metric) = None"
    by (simp add: NewIndex_def)
  have empty: "bucket NewIndex n v = None" for n v
    by (simp add: bucket_def NewIndex_def)
  have "bucket (index written_storage) ''__name__'' ''test_metric''
      = Some [422438541975843349]"
    unfolding written_storage_fields bucket_AddSeries_new [OF none]
    by (simp add: test_write_metric_def bucket_index_label empty fp_test_write)
  then have "fst (FindSeries (index written_storage) [(''__name__'', ''test_metric'')])
      = [422438541975843349]"
    by (rule FindSeries_single) simp
  then show ?thesis
    by (simp add: parseLabelSelectors_def)
qed

lemma GetSeries_written_storage:
  "GetSeries (index written_storage) 422438541975843349
     = Some \<lparr> ID = 422438541975843349, seriesMetadata.Metric = test_write_metric,
              MinTime = 0, MaxTime = 0 \<rparr>"
  unfolding written_storage_def test_write_metric_def by (rule Write_test_write(2))

subsection \<open>Queries\<close>

lemma Query_spec_samples:
  assumes "ser \<in> set (QueryResult.Series (Query_spec kv s req))"
  shows "Samples ser \<noteq> []" and "\<forall>sample \<in> set (Samples ser). strictly_inside req sample"
proof -
  from assms obtain seriesID where "ser \<in> set (series_of_result kv s req seriesID)"
    by (auto simp add: Query_spec_def)
  then have ser: "Samples ser = kept_of_series kv s req seriesID"
    and "kept_of_series kv s req seriesID \<noteq> []"
    by (auto simp add: series_of_result_def split: option.splits if_splits)
  then show "Samples ser \<noteq> []"
    by simp
  have "strictly_inside req sample"
    if "sample \<in> set (kept_of_block kv s req seriesID blockTime)" for sample blockTime
    using that by (auto simp add: kept_of_block_def split: sum.splits)
  then show "\<forall>sample \<in> set (Samples ser). strictly_inside req sample"
    unfolding ser kept_of_series_def by auto
qed

lemma hours_from_single: "hours_from b b = [b]"
  by (simp add: hours_from_step hours_from_done)

lemma no_panic_written_storage:
  "\<forall>seriesID blockTime. \<not> panics (readBlock mem_kv written_storage tenantID seriesID blockTime)"
  using readBlock_no_panic [OF store_sound_written_storage] by blast

lemma block_starts_test_query: "block_starts test_query = [1699999200]"
proof -
  have "Unix (Truncate_Hour \<lparr> unix_sec = 1699999999, nanosecond = 0 \<rparr>) = 1699999200"
    and "Unix (Truncate_Hour \<lparr> unix_sec = 1700000001, nanosecond = 0 \<rparr>) = 1699999200"
    by (simp_all add: time_eval)
  then show ?thesis
    by (simp add: block_starts_def test_query_def hours_from_single)
qed

lemma block_starts_edge_query: "block_starts edge_query = [1699999200]"
proof -
  have "Unix (Truncate_Hour \<lparr> unix_sec = 1699999999, nanosecond = 0 \<rparr>) = 1699999200"
    and "Unix (Truncate_Hour \<lparr> unix_sec = 1700000000, nanosecond = 0 \<rparr>) = 1699999200"
    by (simp_all add: time_eval)
  then show ?thesis
    by (simp add: block_starts_def edge_query_def hours_from_single)
qed

lemma instants:
  "instant \<lparr> unix_sec = 1699999999, nanosecond = 0 \<rparr> = 63835596799000000000"
  "instant \<lparr> unix_sec = 1700000000, nanosecond = 0 \<rparr> = 63835596800000000000"
  "instant \<lparr> unix_sec = 1700000001, nanosecond = 0 \<rparr> = 63835596801000000000"
  by (simp_all add: instant_def sec_def unixToInternal_def)

lemma kept_test_query:
  "kept_of_series mem_kv written_storage test_query 422438541975843349
     = [seconds_only test_write_sample]"
proof -
  have "strictly_inside test_query (seconds_only test_write_sample)"
    by (simp add: strictly_inside_def test_query_def seconds_only_test_write_sample instants)
  moreover have "QueryRequest.TenantID test_query = ''test''"
    by (simp add: test_query_def)
  ultimately show ?thesis
    by (simp add: kept_of_series_def block_starts_test_query kept_of_block_def
        readBlock_written_storage)
qed

lemma kept_edge_query:
  "kept_of_series mem_kv written_storage edge_query 422438541975843349 = []"
proof -
  have "\<not> strictly_inside edge_query (seconds_only test_write_sample)"
    by (simp add: strictly_inside_def edge_query_def seconds_only_test_write_sample instants)
  moreover have "QueryRequest.TenantID edge_query = ''test''"
    by (simp add: edge_query_def)
  ultimately show ?thesis
    by (simp add: kept_of_series_def block_starts_edge_query kept_of_block_def
        readBlock_written_storage)
qed

lemma Query_spec_test_query:
  "Query_spec mem_kv written_storage test_query
     = \<lparr> QueryResult.Series =
           [\<lparr> Series.Metric = test_write_metric,
               Samples = [seconds_only test_write_sample] \<rparr>],
         Error = None \<rparr>"
proof -
  have "Query test_query = ''test_metric''"
    by (simp add: test_query_def)
  then show ?thesis
    by (simp add: Query_spec_def FindSeries_written_storage series_of_result_def
        GetSeries_written_storage kept_test_query)
qed

lemma Query_spec_edge_query:
  "Query_spec mem_kv written_storage edge_query = \<lparr> QueryResult.Series = [], Error = None \<rparr>"
proof -
  have "Query edge_query = ''test_metric''"
    by (simp add: edge_query_def)
  then show ?thesis
    by (simp add: Query_spec_def FindSeries_written_storage series_of_result_def
        GetSeries_written_storage kept_edge_query)
qed

lemma query_bounds:
  "sint (Unix (Truncate_Hour (EndTime test_query))) + 3600 < 2 ^ 63"
  "nanosecond (StartTime test_query) < 1000000000" "nanosecond (EndTime test_query) < 1000000000"
  "sint (Unix (Truncate_Hour (EndTime edge_query))) + 3600 < 2 ^ 63"
  "nanosecond (StartTime edge_query) < 1000000000" "nanosecond (EndTime edge_query) < 1000000000"
proof -
  have "Unix (Truncate_Hour \<lparr> unix_sec = 1700000000, nanosecond = 0 \<rparr>) = 1699999200"
    and "Unix (Truncate_Hour \<lparr> unix_sec = 1700000001, nanosecond = 0 \<rparr>) = 1699999200"
    by (simp_all add: time_eval)
  then show "sint (Unix (Truncate_Hour (EndTime test_query))) + 3600 < 2 ^ 63"
    and "sint (Unix (Truncate_Hour (EndTime edge_query))) + 3600 < 2 ^ 63"
    by (simp_all add: test_query_def edge_query_def)
  show "nanosecond (StartTime test_query) < 1000000000"
    "nanosecond (EndTime test_query) < 1000000000"
    "nanosecond (StartTime edge_query) < 1000000000"
    "nanosecond (EndTime edge_query) < 1000000000"
    by (simp_all add: test_query_def edge_query_def)
qed

lemma Query_test_query:
  "badgerStorage_Query mem_kv written_storage test_query
     = Some (Inr \<lparr> QueryResult.Series =
          [\<lparr> Series.Metric = test_write_metric,
              Samples = [seconds_only test_write_sample] \<rparr>],
          Error = None \<rparr>)"
  using Query_eq_spec [OF query_bounds(1) no_panic_written_storage query_bounds(2,3)]
  by (simp only: Query_spec_test_query)

text \<open>
  C9. \<^verbatim>\<open>Query\<close> returns what the specification says. For each series that the index
  finds for the query it reads the blocks that start at \<open>floor(startTime)\<close>, one hour
  later, and so on up to \<open>floor(endTime)\<close>, where \<open>floor\<close> is \<^verbatim>\<open>Truncate(time.Hour).Unix()\<close>
  (for a time from the year 1 on, the Unix second rounded down to a multiple of 3600).
  From every block it can read it keeps exactly the samples whose instant lies strictly
  between \<open>startTime\<close> and \<open>endTime\<close>, so a sample at either end is left out, and a
  series of which no sample is kept is not part of the result: every series of the
  result has a sample, and all its samples lie strictly inside the window. This holds
  when the \<^verbatim>\<open>int64\<close> block counter cannot pass \<open>floor(endTime)\<close> by wrapping around,
  when no read of a block panics (as is the case when every payload in the store is
  one that \<^verbatim>\<open>writeBlock\<close> wrote), and when the two bounds are proper times.
\<close>

theorem Query_reads_blocks_and_keeps_strictly_inside:
  assumes "sint (Unix (Truncate_Hour (EndTime req))) + 3600 < 2 ^ 63"
    and "\<forall>seriesID blockTime.
          \<not> panics (readBlock kv s (QueryRequest.TenantID req) seriesID blockTime)"
    and "nanosecond (StartTime req) < 1000000000" and "nanosecond (EndTime req) < 1000000000"
  shows "badgerStorage_Query kv s req = Some (Inr (Query_spec kv s req))
    \<and> (\<forall>ser \<in> set (QueryResult.Series (Query_spec kv s req)).
          Samples ser \<noteq> [] \<and> (\<forall>sample \<in> set (Samples ser). strictly_inside req sample))
    \<and> (\<forall>b e x. x \<in> set (hours_from b e) \<longleftrightarrow> (\<exists>k. x = b + 3600 * int k \<and> x \<le> e))
    \<and> (\<forall>t. - 62135596800 \<le> sint (unix_sec t) \<and> sint (unix_sec t) + 62135596800 < 2 ^ 63
              \<and> nanosecond t < 1000000000
          \<longrightarrow> Unix (Truncate_Hour t) = word_of_int (sint (Unix t) div 3600 * 3600))"
proof (intro conjI)
  show "badgerStorage_Query kv s req = Some (Inr (Query_spec kv s req))"
    using assms by (rule Query_eq_spec)
  show "\<forall>ser \<in> set (QueryResult.Series (Query_spec kv s req)).
      Samples ser \<noteq> [] \<and> (\<forall>sample \<in> set (Samples ser). strictly_inside req sample)"
    using Query_spec_samples by blast
  show "\<forall>b e x. x \<in> set (hours_from b e) \<longleftrightarrow> (\<exists>k. x = b + 3600 * int k \<and> x \<le> e)"
    using hours_from_member by blast
  show "\<forall>t. - 62135596800 \<le> sint (unix_sec t) \<and> sint (unix_sec t) + 62135596800 < 2 ^ 63
        \<and> nanosecond t < 1000000000
      \<longrightarrow> Unix (Truncate_Hour t) = word_of_int (sint (Unix t) div 3600 * 3600)"
    by (simp add: Truncate_Hour_floor Unix_def)
qed

text \<open>
  The engine after the request \<open>test_write\<close>, whose sample is stored under the second
  1700000000. A query for the window from 1699999999 to 1700000001 returns the series
  with that sample; a query whose window ends at 1700000000 returns no series.
\<close>

theorem Query_reads_blocks_and_keeps_strictly_inside_witness:
  "sint (Unix (Truncate_Hour (EndTime test_query))) + 3600 < 2 ^ 63
   \<and> nanosecond (StartTime test_query) < 1000000000
   \<and> nanosecond (EndTime test_query) < 1000000000
   \<and> badgerStorage_Query mem_kv written_storage test_query
       = Some (Inr \<lparr> QueryResult.Series =
            [\<lparr> Series.Metric = \<lparr> Name = ''test_metric'', Labels = [(''label'', ''value'')] \<rparr>,
                Samples = [\<lparr> Sample.Timestamp = \<lparr> unix_sec = 1700000000, nanosecond = 0 \<rparr>,
                            Value = Float64frombits 0x4045000000000000 \<rparr>] \<rparr>],
            Error = None \<rparr>)
   \<and> badgerStorage_Query mem_kv written_storage edge_query
       = Some (Inr \<lparr> QueryResult.Series = [], Error = None \<rparr>)"
proof -
  note inside = Query_reads_blocks_and_keeps_strictly_inside [OF query_bounds(1)
      no_panic_written_storage query_bounds(2,3), THEN conjunct1]
  note edge = Query_reads_blocks_and_keeps_strictly_inside [OF query_bounds(4)
      no_panic_written_storage query_bounds(5,6), THEN conjunct1]
  have "badgerStorage_Query mem_kv written_storage test_query
      = Some (Inr \<lparr> QueryResult.Series =
            [\<lparr> Series.Metric = \<lparr> Name = ''test_metric'', Labels = [(''label'', ''value'')] \<rparr>,
                Samples = [\<lparr> Sample.Timestamp = \<lparr> unix_sec = 1700000000, nanosecond = 0 \<rparr>,
                            Value = Float64frombits 0x4045000000000000 \<rparr>] \<rparr>],
            Error = None \<rparr>)"
    unfolding inside Query_spec_test_query seconds_only_test_write_sample test_write_metric_def
    by (rule refl)
  moreover have "badgerStorage_Query mem_kv written_storage edge_query
      = Some (Inr \<lparr> QueryResult.Series = [], Error = None \<rparr>)"
    unfolding edge Query_spec_edge_query by (rule refl)
  ultimately show ?thesis
    using query_bounds(1,2,3) by (intro conjI)
qed

text \<open>
  C10. The write and read path keeps the timestamp of a sample to the whole second.
  \<^verbatim>\<open>writeBlock\<close> stores \<^verbatim>\<open>Timestamp.Unix()\<close> and \<^verbatim>\<open>readBlock\<close> builds the time back with
  \<^verbatim>\<open>time.Unix(ts, 0)\<close>: after a successful \<^verbatim>\<open>writeBlock\<close> of a non-empty slice of
  samples (with a lossless zstd and a store that returns what was set), \<^verbatim>\<open>readBlock\<close>
  for the same key returns the samples in order, each with the same Unix second, the
  same value and no nanoseconds. Such a sample is the one written exactly when the one
  written had no nanoseconds. Every sample that \<^verbatim>\<open>Query\<close> returns comes out of
  \<^verbatim>\<open>readBlock\<close> and so has no nanoseconds either.
\<close>

theorem timestamps_kept_to_whole_seconds:
  assumes "zstd_lossless (compressor s)" and "kv_lawful kv"
    and "samples \<noteq> []" and "32 * int (length samples) \<le> maxAlloc"
    and "writeBlock kv s tenantID seriesID blockTime samples = (None, s')"
  shows "readBlock kv s' tenantID seriesID blockTime = Inr (map seconds_only samples)
    \<and> (\<forall>sample. Unix (Sample.Timestamp (seconds_only sample)) = Unix (Sample.Timestamp sample)
          \<and> nanosecond (Sample.Timestamp (seconds_only sample)) = 0
          \<and> Value (seconds_only sample) = Value sample
          \<and> (seconds_only sample = sample \<longleftrightarrow> nanosecond (Sample.Timestamp sample) = 0))
    \<and> (\<forall>req found ser sample.
          badgerStorage_Query kv s' req = Some (Inr found)
          \<and> ser \<in> set (QueryResult.Series found) \<and> sample \<in> set (Samples ser)
          \<longrightarrow> nanosecond (Sample.Timestamp sample) = 0)"
proof (intro conjI allI impI)
  show "readBlock kv s' tenantID seriesID blockTime = Inr (map seconds_only samples)"
    using assms(1,2,3,5,4) by (rule readBlock_writeBlock)
  show "nanosecond (Sample.Timestamp sample) = 0"
    if "badgerStorage_Query kv s' req = Some (Inr found)
      \<and> ser \<in> set (QueryResult.Series found) \<and> sample \<in> set (Samples ser)"
    for req found ser sample
    using that Query_whole_seconds [of kv s' req found ser sample] by blast
qed (simp_all only: seconds_only_fields)

text \<open>
  The request \<open>test_write\<close>, whose sample lies half a second after the second 1700000000.
  \<^verbatim>\<open>Write\<close> indexes the series and calls \<^verbatim>\<open>writeBlock\<close>; the block read back holds the
  sample on the second 1700000000, and that is the sample \<^verbatim>\<open>Query\<close> returns for the
  window from 1699999999 to 1700000001. A sample written exactly on the second
  1700000001 is read back as it was written.
\<close>

theorem timestamps_kept_to_whole_seconds_witness:
  "zstd_lossless (compressor indexed_storage) \<and> kv_lawful mem_kv
   \<and> [test_write_sample] \<noteq> []
   \<and> 32 * int (length [test_write_sample]) \<le> maxAlloc
   \<and> writeBlock mem_kv indexed_storage ''test'' 422438541975843349 1699999200
        [test_write_sample] = (None, written_storage)
   \<and> Sample.Timestamp test_write_sample = \<lparr> unix_sec = 1700000000, nanosecond = 500000000 \<rparr>
   \<and> readBlock mem_kv written_storage ''test'' 422438541975843349 1699999200
       = Inr [\<lparr> Sample.Timestamp = \<lparr> unix_sec = 1700000000, nanosecond = 0 \<rparr>,
                Value = Float64frombits 0x4045000000000000 \<rparr>]
   \<and> badgerStorage_Query mem_kv written_storage test_query
       = Some (Inr \<lparr> QueryResult.Series =
            [\<lparr> Series.Metric = \<lparr> Name = ''test_metric'', Labels = [(''label'', ''value'')] \<rparr>,
                Samples = [\<lparr> Sample.Timestamp = \<lparr> unix_sec = 1700000000, nanosecond = 0 \<rparr>,
                            Value = Float64frombits 0x4045000000000000 \<rparr>] \<rparr>],
            Error = None \<rparr>)
   \<and> Sample.Timestamp test_exact_sample = \<lparr> unix_sec = 1700000001, nanosecond = 0 \<rparr>
   \<and> readBlock mem_kv
        (snd (writeBlock mem_kv new_storage ''test'' 422438541975843349 1699999200
                [test_exact_sample]))
        ''test'' 422438541975843349 1699999200
       = Inr [test_exact_sample]"
proof -
  let ?w = "writeBlock mem_kv new_storage ''test'' 422438541975843349 1699999200
      [test_exact_sample]"
  have lossless: "zstd_lossless (compressor indexed_storage)"
    "zstd_lossless (compressor new_storage)"
    by (simp_all add: indexed_storage_fields new_storage_def zstd_lossless_stored_frames)
  have fits: "32 * int (length [test_write_sample]) \<le> maxAlloc"
    "32 * int (length [test_exact_sample]) \<le> maxAlloc"
    by (simp_all add: maxAlloc_def)
  have "fst ?w = None"
    by (rule writeBlock_accepted [OF mem_kv_accepts])
  then have w: "?w = (None, snd ?w)"
    by (simp add: prod_eq_iff)
  note written = timestamps_kept_to_whole_seconds [OF lossless(1) kv_lawful_mem_kv _ fits(1)
      writeBlock_test_write]
  note exact = timestamps_kept_to_whole_seconds [OF lossless(2) kv_lawful_mem_kv _ fits(2) w]
  have "readBlock mem_kv written_storage ''test'' 422438541975843349 1699999200
      = Inr [\<lparr> Sample.Timestamp = \<lparr> unix_sec = 1700000000, nanosecond = 0 \<rparr>,
               Value = Float64frombits 0x4045000000000000 \<rparr>]"
    using written [THEN conjunct1] by (simp add: seconds_only_test_write_sample)
  moreover have "seconds_only test_exact_sample = test_exact_sample"
    using exact [THEN conjunct2, THEN conjunct1, rule_format, of test_exact_sample]
    by (simp add: test_exact_sample_def)
  with exact [THEN conjunct1]
  have "readBlock mem_kv (snd ?w) ''test'' 422438541975843349 1699999200
      = Inr [test_exact_sample]"
    by simp
  moreover have "Sample.Timestamp test_write_sample
      = \<lparr> unix_sec = 1700000000, nanosecond = 500000000 \<rparr>"
    and "Sample.Timestamp test_exact_sample = \<lparr> unix_sec = 1700000001, nanosecond = 0 \<rparr>"
    by (simp_all add: test_write_sample_def test_exact_sample_def)
  moreover have "badgerStorage_Query mem_kv written_storage test_query
      = Some (Inr \<lparr> QueryResult.Series =
            [\<lparr> Series.Metric = \<lparr> Name = ''test_metric'', Labels = [(''label'', ''value'')] \<rparr>,
                Samples = [\<lparr> Sample.Timestamp = \<lparr> unix_sec = 1700000000, nanosecond = 0 \<rparr>,
                            Value = Float64frombits 0x4045000000000000 \<rparr>] \<rparr>],
            Error = None \<rparr>)"
    unfolding Query_test_query seconds_only_test_write_sample test_write_metric_def
    by (rule refl)
  ultimately show ?thesis
    using lossless(1) kv_lawful_mem_kv fits(1) writeBlock_test_write by (intro conjI) simp_all
qed

end
